theory Spec2Isabelle
  imports Main
begin

section \<open>Data model of the tabs title control\<close>

text \<open>
  The development follows \<^verbatim>\<open>nextTabsTitleControl.ts\<close>. Pixel measurements and scroll
  offsets are integers, array positions are natural numbers.

  A description handed out by an editor is declared \<^verbatim>\<open>string\<close>, but the control tests
  \<^verbatim>\<open>typeof label.description === 'string'\<close>: a description can also be \<^verbatim>\<open>null\<close> or
  \<^verbatim>\<open>undefined\<close>. Reading an array beyond its end gives \<^verbatim>\<open>undefined\<close> as well.
\<close>

datatype jsstring = Str string | Null | Undefined

fun is_string :: "jsstring \<Rightarrow> bool" where
  "is_string (Str _) = True"
| "is_string _ = False"

datatype Verbosity = SHORT | MEDIUM | LONG

text \<open>
  \<^verbatim>\<open>IEditorInput\<close>: the control only calls \<^verbatim>\<open>getName()\<close>, \<^verbatim>\<open>getDescription(verbosity)\<close>
  and \<^verbatim>\<open>getTitle(Verbosity.LONG)\<close>; the three are taken to be pure, so an editor is
  the table of their answers.
\<close>

record IEditorInput =
  input_name :: string
  input_description_short :: jsstring
  input_description_medium :: jsstring
  input_description_long :: jsstring
  input_title_long :: jsstring

definition getName :: "IEditorInput \<Rightarrow> string" where
  "getName e = input_name e"

fun getDescription :: "IEditorInput \<Rightarrow> Verbosity \<Rightarrow> jsstring" where
  "getDescription e SHORT = input_description_short e"
| "getDescription e MEDIUM = input_description_medium e"
| "getDescription e LONG = input_description_long e"

text \<open>\<^verbatim>\<open>AugmentedLabel = IEditorInputLabel & { editor: IEditorInput }\<close>\<close>

record AugmentedLabel =
  name :: string
  description :: jsstring
  title :: jsstring
  editor :: IEditorInput

section \<open>Label configuration\<close>

record LabelConfigFlags =
  verbosity :: Verbosity
  shortenDuplicates :: bool

definition getLabelConfigFlags :: "string \<Rightarrow> LabelConfigFlags" where
  "getLabelConfigFlags v =
     (if v = ''short'' then \<lparr>verbosity = SHORT, shortenDuplicates = False\<rparr>
      else if v = ''medium'' then \<lparr>verbosity = MEDIUM, shortenDuplicates = False\<rparr>
      else if v = ''long'' then \<lparr>verbosity = LONG, shortenDuplicates = False\<rparr>
      else \<lparr>verbosity = MEDIUM, shortenDuplicates = True\<rparr>)"

section \<open>Moving a label\<close>

text \<open>
  \<^verbatim>\<open>xs.splice(i, 1)\<close> and \<^verbatim>\<open>xs.splice(j, 0, x)\<close>: a start beyond the end of the array is
  clamped to its length, which \<^const>\<open>take\<close> and \<^const>\<open>drop\<close> do as well.
\<close>

definition splice_delete1 :: "'a list \<Rightarrow> nat \<Rightarrow> 'a list" where
  "splice_delete1 xs i = take i xs @ drop (Suc i) xs"

definition splice_insert :: "'a list \<Rightarrow> nat \<Rightarrow> 'a \<Rightarrow> 'a list" where
  "splice_insert xs j x = take j xs @ x # drop j xs"

text \<open>
  The slots of \<^verbatim>\<open>tabLabels\<close> are optional: \<^verbatim>\<open>tabLabels[fromIndex]\<close> beyond the end is
  \<^verbatim>\<open>undefined\<close> (here \<^const>\<open>None\<close>), and the second splice inserts it all the same.
\<close>

definition js_index :: "'a option list \<Rightarrow> nat \<Rightarrow> 'a option" where
  "js_index xs i = (if i < length xs then xs ! i else None)"

definition moveEditor_tabLabels :: "'a option list \<Rightarrow> nat \<Rightarrow> nat \<Rightarrow> 'a option list" where
  "moveEditor_tabLabels tabLabels fromIndex targetIndex =
     (let editorLabel = js_index tabLabels fromIndex
      in splice_insert (splice_delete1 tabLabels fromIndex) targetIndex editorLabel)"

section \<open>Shortening the descriptions of duplicate names\<close>

text \<open>
  A \<^verbatim>\<open>Map\<close> from keys to arrays of labels keeps its keys in insertion order, and
  \<^verbatim>\<open>forEach\<close> visits them in that order: it is an association list. The labels of one
  run are distinct objects (\<^verbatim>\<open>computeTabLabels\<close> creates one per editor), so an entry
  holds the positions of its labels in the array, and a write to a label is a write at
  its position.

  \<^verbatim>\<open>getOrSet(map, key, []).push(label)\<close>:
\<close>

fun getOrSet_push :: "('k \<times> nat list) list \<Rightarrow> 'k \<Rightarrow> nat \<Rightarrow> ('k \<times> nat list) list" where
  "getOrSet_push [] k i = [(k, [i])]"
| "getOrSet_push ((k', v) # m) k i =
     (if k' = k then (k', v @ [i]) # m else (k', v) # getOrSet_push m k i)"

text \<open>\<^verbatim>\<open>label.description = d\<close> for the label at position \<open>i\<close>\<close>

definition setDescription :: "nat \<Rightarrow> jsstring \<Rightarrow> AugmentedLabel list \<Rightarrow> AugmentedLabel list" where
  "setDescription i d labels = labels[i := (labels ! i)\<lparr>description := d\<rparr>]"

text \<open>\<^verbatim>\<open>for (const label of entry) { label.description = d; }\<close>\<close>

definition setDescriptions :: "nat list \<Rightarrow> jsstring \<Rightarrow> AugmentedLabel list \<Rightarrow> AugmentedLabel list" where
  "setDescriptions entry d labels = fold (\<lambda>i. setDescription i d) entry labels"

text \<open>\<^verbatim>\<open>shortenedDescriptions[i]\<close>, which is \<^verbatim>\<open>undefined\<close> beyond the end of the array\<close>

definition js_nth :: "jsstring list \<Rightarrow> nat \<Rightarrow> jsstring" where
  "js_nth xs i = (if i < length xs then xs ! i else Undefined)"

text \<open>The first loop: gather the labels by name, clearing the descriptions that are no strings.\<close>

definition gatherTitles_step ::
  "nat \<Rightarrow> AugmentedLabel list \<times> (string \<times> nat list) list
       \<Rightarrow> AugmentedLabel list \<times> (string \<times> nat list) list" where
  "gatherTitles_step i = (\<lambda>(labels, mapTitleToDuplicates).
     if is_string (description (labels ! i))
     then (labels, getOrSet_push mapTitleToDuplicates (name (labels ! i)) i)
     else (setDescription i (Str []) labels, mapTitleToDuplicates))"

definition gatherTitles ::
  "AugmentedLabel list \<Rightarrow> AugmentedLabel list \<times> (string \<times> nat list) list" where
  "gatherTitles labels = fold gatherTitles_step [0..<length labels] (labels, [])"

text \<open>The labels of one name, by their current description.\<close>

definition gatherDescriptions ::
  "AugmentedLabel list \<Rightarrow> nat list \<Rightarrow> (jsstring \<times> nat list) list" where
  "gatherDescriptions labels duplicateTitles =
     fold (\<lambda>i m. getOrSet_push m (description (labels ! i)) i) duplicateTitles []"

text \<open>
  \<^verbatim>\<open>useLongDescriptions\<close>: some entry of more than one label holds a label whose long
  description is not that of the entry's first label.
\<close>

definition longDescriptionsDiffer :: "AugmentedLabel list \<Rightarrow> nat list \<Rightarrow> bool" where
  "longDescriptionsDiffer labels duplicateDescriptions =
     (case map (\<lambda>i. getDescription (editor (labels ! i)) LONG) duplicateDescriptions of
        [] \<Rightarrow> False
      | first # rest \<Rightarrow> list_ex (\<lambda>d. d \<noteq> first) rest)"

definition useLongDescriptions ::
  "AugmentedLabel list \<Rightarrow> (jsstring \<times> nat list) list \<Rightarrow> bool" where
  "useLongDescriptions labels mapDescriptionToDuplicates =
     fold (\<lambda>(d, duplicateDescriptions) useLong.
             if \<not> useLong \<and> length duplicateDescriptions > 1
             then longDescriptionsDiffer labels duplicateDescriptions
             else useLong)
       mapDescriptionToDuplicates False"

text \<open>Replace every description of the name by the long one and gather again.\<close>

definition replaceWithLong_step ::
  "nat \<Rightarrow> AugmentedLabel list \<times> (jsstring \<times> nat list) list
       \<Rightarrow> AugmentedLabel list \<times> (jsstring \<times> nat list) list" where
  "replaceWithLong_step i = (\<lambda>(labels, m).
     let labels' = setDescription i (getDescription (editor (labels ! i)) LONG) labels
     in (labels', getOrSet_push m (description (labels' ! i)) i))"

definition replaceWithLong ::
  "AugmentedLabel list \<Rightarrow> nat list \<Rightarrow> AugmentedLabel list \<times> (jsstring \<times> nat list) list" where
  "replaceWithLong labels duplicateTitles = fold replaceWithLong_step duplicateTitles (labels, [])"

text \<open>
  \<^verbatim>\<open>descriptions.forEach((description, i) => ...)\<close>: every label of the entry of the
  \<open>i\<close>-th description gets the \<open>i\<close>-th shortened description. The descriptions are the
  keys of the map, so \<^verbatim>\<open>get\<close> finds an entry for each of them.
\<close>

fun assignShortened ::
  "jsstring list \<Rightarrow> (jsstring \<times> nat list) list \<Rightarrow> jsstring list \<Rightarrow> nat
     \<Rightarrow> AugmentedLabel list \<Rightarrow> AugmentedLabel list" where
  "assignShortened shortenedDescriptions m [] i labels = labels"
| "assignShortened shortenedDescriptions m (d # descriptions) i labels =
     assignShortened shortenedDescriptions m descriptions (Suc i)
       (case map_of m d of
          Some entry \<Rightarrow> setDescriptions entry (js_nth shortenedDescriptions i) labels
        | None \<Rightarrow> labels)"

text \<open>
  The body of \<^verbatim>\<open>mapTitleToDuplicates.forEach\<close> for the labels of one name.
  \<^verbatim>\<open>shorten\<close> (of \<^verbatim>\<open>vs/base/common/labels\<close>) is not part of this file: it is a parameter.
\<close>

definition shortenDuplicateTitles ::
  "(jsstring list \<Rightarrow> jsstring list) \<Rightarrow> nat list \<Rightarrow> AugmentedLabel list \<Rightarrow> AugmentedLabel list" where
  "shortenDuplicateTitles shorten duplicateTitles labels =
     (if length duplicateTitles = 1 then setDescription (duplicateTitles ! 0) (Str []) labels
      else
        (let m0 = gatherDescriptions labels duplicateTitles;
             (labels1, mapDescriptionToDuplicates) =
                (if useLongDescriptions labels m0 then replaceWithLong labels duplicateTitles
                 else (labels, m0));
             descriptions = map fst mapDescriptionToDuplicates
         in if length descriptions = 1
            then (case map_of mapDescriptionToDuplicates (descriptions ! 0) of
                    Some entry \<Rightarrow> setDescriptions entry (Str []) labels1
                  | None \<Rightarrow> labels1)
            else assignShortened (shorten descriptions) mapDescriptionToDuplicates
                   descriptions 0 labels1))"

definition shortenTabLabels ::
  "(jsstring list \<Rightarrow> jsstring list) \<Rightarrow> AugmentedLabel list \<Rightarrow> AugmentedLabel list" where
  "shortenTabLabels shorten labels =
     (let (labels1, mapTitleToDuplicates) = gatherTitles labels
      in fold (\<lambda>(n, duplicateTitles). shortenDuplicateTitles shorten duplicateTitles)
           mapTitleToDuplicates labels1)"

text \<open>
  \<^verbatim>\<open>computeTabLabels\<close>, for the label format of the options and the editors of the
  group: one label per editor, shortened when the format asks for it.
\<close>

definition editorLabel :: "Verbosity \<Rightarrow> IEditorInput \<Rightarrow> AugmentedLabel" where
  "editorLabel v e =
     \<lparr>name = getName e, description = getDescription e v, title = input_title_long e, editor = e\<rparr>"

definition computeTabLabels ::
  "(jsstring list \<Rightarrow> jsstring list) \<Rightarrow> string \<Rightarrow> IEditorInput list \<Rightarrow> AugmentedLabel list" where
  "computeTabLabels shorten labelFormat eds =
     (let flags = getLabelConfigFlags labelFormat;
          labels = map (editorLabel (verbosity flags)) eds
      in if shortenDuplicates flags then shortenTabLabels shorten labels else labels)"

section \<open>The host group\<close>

text \<open>
  Modelled from the spec: the host group (\<^verbatim>\<open>INextEditorGroup\<close>, whose implementation is
  not part of this file) exposes an ordered document list with stable indices, the
  current active document and the document count. \<^verbatim>\<open>getIndexOfEditor\<close> answers the
  position of a document in that list and \<open>-1\<close> for a document that is not in it, which
  is what the test \<^verbatim>\<open>editorIndex >= 0\<close> of \<^verbatim>\<open>getTab\<close> expects.
\<close>

record INextEditorGroup =
  group_id :: nat
  editors :: "IEditorInput list"
  activeEditor :: "IEditorInput option"

definition group_count :: "INextEditorGroup \<Rightarrow> nat" where
  "group_count g = length (editors g)"

fun indexOf :: "'a list \<Rightarrow> 'a \<Rightarrow> int" where
  "indexOf [] x = - 1"
| "indexOf (y # ys) x =
     (if y = x then 0 else (let r = indexOf ys x in if r < 0 then - 1 else r + 1))"

definition getIndexOfEditor :: "INextEditorGroup \<Rightarrow> IEditorInput option \<Rightarrow> int" where
  "getIndexOfEditor g ed = (case ed of None \<Rightarrow> - 1 | Some e \<Rightarrow> indexOf (editors g) e)"

section \<open>State of the control\<close>

text \<open>A tab element and the tabs container, by the DOM measurements that \<^verbatim>\<open>doLayout\<close> reads.\<close>

record HTMLElement =
  offsetLeft :: int
  offsetWidth :: int

record TabsContainer =
  container_offsetWidth :: int
  container_scrollWidth :: int
  children :: "HTMLElement list"
  scroll_class :: bool
  dropFeedback :: bool

text \<open>
  Modelled from the spec: the scroll-bar (\<^verbatim>\<open>ScrollableElement\<close>, not part of this file) is
  the scroll state of the spec: the viewport width, the content width and the current
  scroll offset. \<^verbatim>\<open>setScrollDimensions\<close> and \<^verbatim>\<open>setScrollPosition\<close> store what they are
  given, \<^verbatim>\<open>getScrollPosition().scrollLeft\<close> reads the offset.
\<close>

record ScrollableElement =
  sb_width :: int
  sb_scrollWidth :: int
  sb_scrollLeft :: int

definition setScrollDimensions :: "int \<Rightarrow> int \<Rightarrow> ScrollableElement \<Rightarrow> ScrollableElement" where
  "setScrollDimensions w sw sb = sb\<lparr>sb_width := w, sb_scrollWidth := sw\<rparr>"

definition setScrollPosition :: "int \<Rightarrow> ScrollableElement \<Rightarrow> ScrollableElement" where
  "setScrollPosition x sb = sb\<lparr>sb_scrollLeft := x\<rparr>"

record Dimension =
  dim_width :: int
  dim_height :: int

text \<open>The payload of a tab drag: the dragged editor and the identifier of its group.\<close>

record DraggedEditorIdentifier =
  dragged_editor :: IEditorInput
  dragged_group_id :: nat

text \<open>
  The fields of \<^verbatim>\<open>NextTabsTitleControl\<close> that the operations below read or write.
  \<^verbatim>\<open>transfer\<close> is the process-wide \<^verbatim>\<open>LocalSelectionTransfer\<close> slot; \<^verbatim>\<open>layoutScheduled\<close>
  says whether an animation-frame callback is pending.
\<close>

record NextTabsTitleControl =
  group :: INextEditorGroup
  tabsContainer :: TabsContainer
  scrollbar :: ScrollableElement
  tabLabels :: "AugmentedLabel option list"
  dimension :: "Dimension option"
  layoutScheduled :: bool
  blockRevealActiveTab :: bool
  transfer :: "DraggedEditorIdentifier option"

section \<open>Layout: revealing the active tab\<close>

definition getTab :: "NextTabsTitleControl \<Rightarrow> IEditorInput option \<Rightarrow> HTMLElement option" where
  "getTab s ed =
     (let editorIndex = getIndexOfEditor (group s) ed
      in if editorIndex \<ge> 0
         then (if nat editorIndex < length (children (tabsContainer s))
               then Some (children (tabsContainer s) ! nat editorIndex) else None)
         else None)"

definition layout :: "Dimension option \<Rightarrow> NextTabsTitleControl \<Rightarrow> NextTabsTitleControl" where
  "layout dim s =
     (if getTab s (activeEditor (group s)) = None \<or> dim = None then s
      else (let s1 = s\<lparr>dimension := dim\<rparr>
            in if \<not> layoutScheduled s1 then s1\<lparr>layoutScheduled := True\<rparr> else s1))"

definition doLayout :: "NextTabsTitleControl \<Rightarrow> NextTabsTitleControl" where
  "doLayout s =
     (case getTab s (activeEditor (group s)) of
        None \<Rightarrow> s
      | Some activeTab \<Rightarrow>
          (let visibleContainerWidth = container_offsetWidth (tabsContainer s);
               totalContainerWidth = container_scrollWidth (tabsContainer s);
               s1 = s\<lparr>scrollbar :=
                      setScrollDimensions visibleContainerWidth totalContainerWidth (scrollbar s)\<rparr>
           in if blockRevealActiveTab s1 then s1\<lparr>blockRevealActiveTab := False\<rparr>
              else
                (let activeTabPosX = offsetLeft activeTab;
                     activeTabWidth = offsetWidth activeTab;
                     containerScrollPosX = sb_scrollLeft (scrollbar s1);
                     activeTabFits = (activeTabWidth \<le> visibleContainerWidth)
                 in if activeTabFits \<and>
                       containerScrollPosX + visibleContainerWidth < activeTabPosX + activeTabWidth
                    then s1\<lparr>scrollbar := setScrollPosition
                           (containerScrollPosX +
                              ((activeTabPosX + activeTabWidth) -
                               (containerScrollPosX + visibleContainerWidth)))
                           (scrollbar s1)\<rparr>
                    else if containerScrollPosX > activeTabPosX \<or> \<not> activeTabFits
                    then s1\<lparr>scrollbar := setScrollPosition activeTabPosX (scrollbar s1)\<rparr>
                    else s1)))"

text \<open>The callback that \<^verbatim>\<open>layout\<close> schedules at the next animation frame.\<close>

definition scheduledLayout :: "NextTabsTitleControl \<Rightarrow> NextTabsTitleControl" where
  "scheduledLayout s = (doLayout s)\<lparr>layoutScheduled := False\<rparr>"

definition blockRevealActiveTabOnce :: "NextTabsTitleControl \<Rightarrow> NextTabsTitleControl" where
  "blockRevealActiveTabOnce s = s\<lparr>blockRevealActiveTab := True\<rparr>"

text \<open>
  \<^verbatim>\<open>moveEditor\<close>: the label splice, then the redraw of every tab (which renders the
  labels and changes none of the fields above), then a layout request.
\<close>

definition moveEditor ::
  "IEditorInput \<Rightarrow> nat \<Rightarrow> nat \<Rightarrow> NextTabsTitleControl \<Rightarrow> NextTabsTitleControl" where
  "moveEditor e fromIndex targetIndex s =
     layout (dimension s)
       (s\<lparr>tabLabels := moveEditor_tabLabels (tabLabels s) fromIndex targetIndex\<rparr>)"

section \<open>Drag and drop onto the tabs container\<close>

text \<open>
  Of a \<^verbatim>\<open>DragEvent\<close>: the modifier keys, and whether the target is the tabs container
  itself (\<^verbatim>\<open>target.className.indexOf('tabs-container') === 0\<close>) rather than a tab.
  The \<^verbatim>\<open>dropEffect\<close> that the drag-over listener writes is a field of the event, not of
  the control.
\<close>

record DragEvent =
  ctrlKey :: bool
  altKey :: bool
  target_is_tabsContainer :: bool

text \<open>
  The calls that \<^verbatim>\<open>onDrop\<close> makes on its collaborators:
  \<^verbatim>\<open>sourceGroup.moveEditor(editor, this.group, { index })\<close> with the identifiers of the
  source group and of this group, \<^verbatim>\<open>this.group.openEditor(editor, { pinned: true, index })\<close>,
  and \<^verbatim>\<open>dropHandler.handleDrop(e, ..., this.group.id, index)\<close>. The collaborators are a
  parameter \<open>host\<close> of the handlers: the call is synchronous and may change the control.
\<close>

datatype HostRequest =
    MoveEditor nat IEditorInput nat nat
  | OpenEditor IEditorInput nat
  | HandleDrop nat nat

definition updateDropFeedback :: "bool \<Rightarrow> NextTabsTitleControl \<Rightarrow> NextTabsTitleControl" where
  "updateDropFeedback isDND s = s\<lparr>tabsContainer := (tabsContainer s)\<lparr>dropFeedback := isDND\<rparr>\<rparr>"

definition set_scroll_class :: "bool \<Rightarrow> NextTabsTitleControl \<Rightarrow> NextTabsTitleControl" where
  "set_scroll_class b s = s\<lparr>tabsContainer := (tabsContainer s)\<lparr>scroll_class := b\<rparr>\<rparr>"

definition isMoveOperation :: "bool \<Rightarrow> DragEvent \<Rightarrow> nat \<Rightarrow> NextTabsTitleControl \<Rightarrow> bool" where
  "isMoveOperation isMacintosh e source_id s =
     (let isCopy = (ctrlKey e \<and> \<not> isMacintosh) \<or> (altKey e \<and> isMacintosh)
      in \<not> isCopy \<or> source_id = group_id (group s))"

definition onDrop ::
  "(HostRequest \<Rightarrow> NextTabsTitleControl \<Rightarrow> NextTabsTitleControl) \<Rightarrow> bool \<Rightarrow> DragEvent \<Rightarrow> nat
     \<Rightarrow> NextTabsTitleControl \<Rightarrow> NextTabsTitleControl" where
  "onDrop host isMacintosh e targetIndex s =
     (let s1 = set_scroll_class False (updateDropFeedback False s)
      in case transfer s1 of
           Some draggedEditor \<Rightarrow>
             (let s2 =
                (if isMoveOperation isMacintosh e (dragged_group_id draggedEditor) s1
                 then host (MoveEditor (dragged_group_id draggedEditor) (dragged_editor draggedEditor)
                              (group_id (group s1)) targetIndex) s1
                 else host (OpenEditor (dragged_editor draggedEditor) targetIndex) s1)
              in s2\<lparr>transfer := None\<rparr>)
         | None \<Rightarrow> host (HandleDrop (group_id (group s1)) targetIndex) s1)"

text \<open>The \<^verbatim>\<open>DRAG_OVER\<close> and \<^verbatim>\<open>DROP\<close> listeners of the tabs container.\<close>

definition tabsContainer_onDragOver :: "DragEvent \<Rightarrow> NextTabsTitleControl \<Rightarrow> NextTabsTitleControl" where
  "tabsContainer_onDragOver e s =
     (let draggedEditor = transfer s;
          s1 = set_scroll_class True s
      in if target_is_tabsContainer e
         then (let draggedEditorIsLastTab =
                     (case draggedEditor of
                        Some d \<Rightarrow>
                          group_id (group s1) = dragged_group_id d \<and>
                          getIndexOfEditor (group s1) (Some (dragged_editor d))
                            = int (group_count (group s1)) - 1
                      | None \<Rightarrow> False)
               in if \<not> draggedEditorIsLastTab then updateDropFeedback True s1 else s1)
         else s1)"

definition tabsContainer_onDrop ::
  "(HostRequest \<Rightarrow> NextTabsTitleControl \<Rightarrow> NextTabsTitleControl) \<Rightarrow> bool \<Rightarrow> DragEvent
     \<Rightarrow> NextTabsTitleControl \<Rightarrow> NextTabsTitleControl" where
  "tabsContainer_onDrop host isMacintosh e s =
     (let s1 = set_scroll_class False (updateDropFeedback False s)
      in if target_is_tabsContainer e then onDrop host isMacintosh e (group_count (group s1)) s1
         else s1)"

text \<open>
  Modelled from the spec: \<^verbatim>\<open>moveEditor\<close> of the host group for a move inside the group.
  A move removes the document from its position and inserts it at the target index, and
  the host notifies the control of the mutation, which for a move is the control's
  \<^verbatim>\<open>moveEditor(editor, fromIndex, targetIndex)\<close>.
\<close>

definition group_moveEditor ::
  "IEditorInput \<Rightarrow> nat \<Rightarrow> NextTabsTitleControl \<Rightarrow> NextTabsTitleControl" where
  "group_moveEditor ed index s =
     (let fromIndex = getIndexOfEditor (group s) (Some ed)
      in if fromIndex < 0 then s
         else moveEditor ed (nat fromIndex) index
                (s\<lparr>group := (group s)\<lparr>editors :=
                      splice_insert (splice_delete1 (editors (group s)) (nat fromIndex)) index ed\<rparr>\<rparr>))"

section \<open>Notions used in the proofs\<close>

text \<open>What the resolver leaves alone in a label: everything but the description.\<close>

definition frame :: "AugmentedLabel \<Rightarrow> string \<times> jsstring \<times> IEditorInput" where
  "frame l = (name l, title l, editor l)"

text \<open>The map that a loop of \<^verbatim>\<open>getOrSet(map, key(i), []).push(i)\<close> builds from the empty map.\<close>

definition buckets :: "(nat \<Rightarrow> 'k) \<Rightarrow> nat list \<Rightarrow> ('k \<times> nat list) list" where
  "buckets key js = fold (\<lambda>i m. getOrSet_push m (key i) i) js []"

text \<open>
  For the labels \<open>g\<close> of one name: the long description of a label, whether two labels
  of equal description differ in their long descriptions, the description by which the
  resolver finally tells the labels apart, and these descriptions in the order of the map.
\<close>

definition longOf :: "AugmentedLabel list \<Rightarrow> nat \<Rightarrow> jsstring" where
  "longOf labels i = getDescription (editor (labels ! i)) LONG"

definition needLong :: "AugmentedLabel list \<Rightarrow> nat list \<Rightarrow> bool" where
  "needLong labels g \<longleftrightarrow>
     (\<exists>i \<in> set g. \<exists>j \<in> set g. description (labels ! i) = description (labels ! j) \<and>
        longOf labels i \<noteq> longOf labels j)"

definition keyOf :: "AugmentedLabel list \<Rightarrow> nat list \<Rightarrow> nat \<Rightarrow> jsstring" where
  "keyOf labels g i = (if needLong labels g then longOf labels i else description (labels ! i))"

definition groupKeys :: "AugmentedLabel list \<Rightarrow> nat list \<Rightarrow> jsstring list" where
  "groupKeys labels g = map fst (buckets (keyOf labels g) g)"

text \<open>
  The result of the first loop on one label, the positions of the labels it gathers, and
  the positions gathered under the name of the label at position \<open>i\<close>, with their
  descriptions.
\<close>

definition clearNonString :: "AugmentedLabel \<Rightarrow> AugmentedLabel" where
  "clearNonString l = (if is_string (description l) then l else l\<lparr>description := Str []\<rparr>)"

definition stringPositions :: "AugmentedLabel list \<Rightarrow> nat list" where
  "stringPositions labels = filter (\<lambda>i. is_string (description (labels ! i))) [0..<length labels]"

definition sameName :: "AugmentedLabel list \<Rightarrow> nat \<Rightarrow> nat list" where
  "sameName labels i =
     filter (\<lambda>j. is_string (description (labels ! j)) \<and> name (labels ! j) = name (labels ! i))
       [0..<length labels]"


text \<open>The entries of a map of positions below \<open>n\<close>: distinct keys, disjoint entries.\<close>

definition groups_ok :: "nat \<Rightarrow> ('k \<times> nat list) list \<Rightarrow> bool" where
  "groups_ok n mt \<longleftrightarrow>
     distinct (map fst mt) \<and>
     (\<forall>k g. (k, g) \<in> set mt \<longrightarrow> set g \<subseteq> {..<n}) \<and>
     (\<forall>k g k' g'. (k, g) \<in> set mt \<longrightarrow> (k', g') \<in> set mt \<longrightarrow> k \<noteq> k' \<longrightarrow>
        set g \<inter> set g' = {})"

text \<open>
  Modelled from the spec: \<^verbatim>\<open>shorten\<close> of \<^verbatim>\<open>vs/base/common/labels\<close>, which is not part of
  this file, is the path-shortening routine that "returns, for each input string, the
  minimal suffix (with ellipsis marker) needed to make every output unique". Of this the
  contract keeps: for pairwise distinct strings the routine returns as many strings, again
  pairwise distinct.
\<close>

definition shorten_contract :: "(jsstring list \<Rightarrow> jsstring list) \<Rightarrow> bool" where
  "shorten_contract sh \<longleftrightarrow>
     (\<forall>ds. distinct ds \<and> (\<forall>d \<in> set ds. is_string d) \<longrightarrow>
        length (sh ds) = length ds \<and> distinct (sh ds) \<and> (\<forall>d \<in> set (sh ds). is_string d))"


section \<open>Theorems\<close>

subsection \<open>Label configuration\<close>

text \<open>
  C8: the strings \<^verbatim>\<open>short\<close>, \<^verbatim>\<open>medium\<close> and \<^verbatim>\<open>long\<close> select their verbosity with
  \<^verbatim>\<open>shortenDuplicates = false\<close>; every other string selects \<^verbatim>\<open>MEDIUM\<close> with
  \<^verbatim>\<open>shortenDuplicates = true\<close>.
\<close>

theorem getLabelConfigFlags_mapping:
  "getLabelConfigFlags ''short'' = \<lparr>verbosity = SHORT, shortenDuplicates = False\<rparr> \<and>
   getLabelConfigFlags ''medium'' = \<lparr>verbosity = MEDIUM, shortenDuplicates = False\<rparr> \<and>
   getLabelConfigFlags ''long'' = \<lparr>verbosity = LONG, shortenDuplicates = False\<rparr> \<and>
   (v \<noteq> ''short'' \<and> v \<noteq> ''medium'' \<and> v \<noteq> ''long'' \<longrightarrow>
      getLabelConfigFlags v = \<lparr>verbosity = MEDIUM, shortenDuplicates = True\<rparr>)"
  by (simp add: getLabelConfigFlags_def)

theorem getLabelConfigFlags_mapping_witness:
  "getLabelConfigFlags ''default'' = \<lparr>verbosity = MEDIUM, shortenDuplicates = True\<rparr> \<and>
   getLabelConfigFlags '''' = \<lparr>verbosity = MEDIUM, shortenDuplicates = True\<rparr> \<and>
   getLabelConfigFlags ''Short'' = \<lparr>verbosity = MEDIUM, shortenDuplicates = True\<rparr>"
  using getLabelConfigFlags_mapping [of "''default''"]
    getLabelConfigFlags_mapping [of "''''"]
    getLabelConfigFlags_mapping [of "''Short''"]
  by simp

subsection \<open>Moving a label forth and back\<close>

lemma moveEditor_tabLabels_length:
  "fromIndex < length xs \<Longrightarrow> length (moveEditor_tabLabels xs fromIndex targetIndex) = length xs"
  by (simp add: moveEditor_tabLabels_def splice_insert_def splice_delete1_def)

lemma splice_delete1_insert:
  "j \<le> length xs \<Longrightarrow> splice_delete1 (splice_insert xs j x) j = xs"
  by (simp add: splice_insert_def splice_delete1_def)

lemma splice_insert_nth:
  "j \<le> length xs \<Longrightarrow> splice_insert xs j x ! j = x"
  by (simp add: splice_insert_def nth_append)

lemma splice_insert_delete1:
  "i < length xs \<Longrightarrow> splice_insert (splice_delete1 xs i) i (xs ! i) = xs"
  by (simp add: splice_insert_def splice_delete1_def min_def id_take_nth_drop [symmetric])

text \<open>
  C7: for valid positions \<open>i\<close> and \<open>j\<close> of the label array, moving the label from \<open>i\<close> to
  \<open>j\<close> and then from \<open>j\<close> to \<open>i\<close> gives the original array back.
\<close>

theorem moveEditor_tabLabels_inverse:
  assumes "i < length ls" and "j < length ls"
  shows "moveEditor_tabLabels (moveEditor_tabLabels ls i j) j i = ls"
proof -
  let ?rest = "splice_delete1 ls i"
  let ?moved = "splice_insert ?rest j (ls ! i)"
  have len: "length ?rest = length ls - 1"
    using assms by (simp add: splice_delete1_def)
  then have j: "j \<le> length ?rest"
    using assms by simp
  have first: "moveEditor_tabLabels ls i j = ?moved"
    using assms by (simp add: moveEditor_tabLabels_def js_index_def)
  have jm: "j < length ?moved"
    using j by (simp add: splice_insert_def)
  have "moveEditor_tabLabels ?moved j i =
      splice_insert (splice_delete1 ?moved j) i (?moved ! j)"
    using jm by (simp add: moveEditor_tabLabels_def js_index_def)
  also have "\<dots> = splice_insert ?rest i (ls ! i)"
    using j by (simp add: splice_delete1_insert splice_insert_nth)
  also have "\<dots> = ls"
    using assms by (simp add: splice_insert_delete1)
  finally show ?thesis
    using first by simp
qed

theorem moveEditor_tabLabels_inverse_witness:
  "moveEditor_tabLabels [Some (1::nat), Some 2, Some 3, Some 4] 0 2 = [Some 2, Some 3, Some 1, Some 4] \<and>
   moveEditor_tabLabels (moveEditor_tabLabels [Some (1::nat), Some 2, Some 3, Some 4] 0 2) 2 0
     = [Some 1, Some 2, Some 3, Some 4]"
  using moveEditor_tabLabels_inverse [of 0 "[Some (1::nat), Some 2, Some 3, Some 4]" 2]
  by (simp add: moveEditor_tabLabels_def splice_insert_def splice_delete1_def js_index_def)

subsection \<open>Revealing the active tab\<close>

text \<open>
  C1: when \<^verbatim>\<open>doLayout\<close> runs with the suppress-reveal flag clear and an active tab at
  offset \<open>X\<close> of width \<open>W\<close>, in a viewport of width \<open>V\<close> at scroll offset \<open>S\<close>: if
  \<open>X + W > S + V\<close> and \<open>W \<le> V\<close> the new offset is \<open>S + (X + W) - (S + V)\<close>; else if
  \<open>S > X\<close> or \<open>W > V\<close> it is \<open>X\<close>; otherwise it stays \<open>S\<close>.
\<close>

theorem doLayout_reveal:
  assumes "\<not> blockRevealActiveTab s"
    and "getTab s (activeEditor (group s)) = Some activeTab"
    and "X = offsetLeft activeTab" and "W = offsetWidth activeTab"
    and "V = container_offsetWidth (tabsContainer s)"
    and "S = sb_scrollLeft (scrollbar s)"
  shows "sb_scrollLeft (scrollbar (doLayout s)) =
           (if X + W > S + V \<and> W \<le> V then S + (X + W) - (S + V)
            else if S > X \<or> W > V then X
            else S)"
  using assms
  by (simp add: doLayout_def Let_def setScrollDimensions_def setScrollPosition_def)

theorem doLayout_reveal_witness:
  "(let E = \<lparr>input_name = ''a.ts'', input_description_short = Str ''src'', input_description_medium = Str ''app/src'', input_description_long = Str ''/home/app/src'', input_title_long = Str ''/home/app/src/a.ts''\<rparr>;
        s = \<lparr>group = \<lparr>group_id = 1, editors = [E], activeEditor = Some E\<rparr>,
        tabsContainer = \<lparr>container_offsetWidth = 400, container_scrollWidth = 900,
          children = [\<lparr>offsetLeft = 500, offsetWidth = 80\<rparr>], scroll_class = False,
          dropFeedback = False\<rparr>,
        scrollbar = \<lparr>sb_width = 300, sb_scrollWidth = 700, sb_scrollLeft = 50\<rparr>,
        tabLabels = [], dimension = None, layoutScheduled = True,
        blockRevealActiveTab = False, transfer = None\<rparr>
    in sb_scrollLeft (scrollbar (doLayout s)) = 180)"
  using doLayout_reveal [of "\<lparr>group = \<lparr>group_id = 1, editors = [\<lparr>input_name = ''a.ts'', input_description_short = Str ''src'', input_description_medium = Str ''app/src'', input_description_long = Str ''/home/app/src'', input_title_long = Str ''/home/app/src/a.ts''\<rparr>], activeEditor = Some (\<lparr>input_name = ''a.ts'', input_description_short = Str ''src'', input_description_medium = Str ''app/src'', input_description_long = Str ''/home/app/src'', input_title_long = Str ''/home/app/src/a.ts''\<rparr>)\<rparr>,
        tabsContainer = \<lparr>container_offsetWidth = 400, container_scrollWidth = 900,
          children = [\<lparr>offsetLeft = 500, offsetWidth = 80\<rparr>], scroll_class = False,
          dropFeedback = False\<rparr>,
        scrollbar = \<lparr>sb_width = 300, sb_scrollWidth = 700, sb_scrollLeft = 50\<rparr>,
        tabLabels = [], dimension = None, layoutScheduled = True,
        blockRevealActiveTab = False, transfer = None\<rparr>"
      "\<lparr>offsetLeft = 500, offsetWidth = 80\<rparr>" 500 80 400 50]
  by (simp add: getTab_def getIndexOfEditor_def)

text \<open>
  C6: when \<^verbatim>\<open>doLayout\<close> runs with the suppress-reveal flag set and an active tab present,
  it pushes the viewport width and the content width of the container to the scroll-bar,
  clears the flag and leaves the scroll offset as it was.
\<close>

theorem doLayout_blocked:
  assumes "blockRevealActiveTab s"
    and "getTab s (activeEditor (group s)) = Some activeTab"
  shows "sb_width (scrollbar (doLayout s)) = container_offsetWidth (tabsContainer s) \<and>
         sb_scrollWidth (scrollbar (doLayout s)) = container_scrollWidth (tabsContainer s) \<and>
         \<not> blockRevealActiveTab (doLayout s) \<and>
         sb_scrollLeft (scrollbar (doLayout s)) = sb_scrollLeft (scrollbar s)"
  using assms
  by (simp add: doLayout_def Let_def setScrollDimensions_def)

theorem doLayout_blocked_witness:
  "(let E = \<lparr>input_name = ''a.ts'', input_description_short = Str ''src'', input_description_medium = Str ''app/src'', input_description_long = Str ''/home/app/src'', input_title_long = Str ''/home/app/src/a.ts''\<rparr>;
        s = \<lparr>group = \<lparr>group_id = 1, editors = [E], activeEditor = Some E\<rparr>,
        tabsContainer = \<lparr>container_offsetWidth = 400, container_scrollWidth = 900,
          children = [\<lparr>offsetLeft = 500, offsetWidth = 80\<rparr>], scroll_class = False,
          dropFeedback = False\<rparr>,
        scrollbar = \<lparr>sb_width = 300, sb_scrollWidth = 700, sb_scrollLeft = 50\<rparr>,
        tabLabels = [], dimension = None, layoutScheduled = True,
        blockRevealActiveTab = True, transfer = None\<rparr>
    in sb_width (scrollbar (doLayout s)) = 400 \<and>
       sb_scrollWidth (scrollbar (doLayout s)) = 900 \<and>
       \<not> blockRevealActiveTab (doLayout s) \<and>
       sb_scrollLeft (scrollbar (doLayout s)) = 50)"
  using doLayout_blocked [of "\<lparr>group = \<lparr>group_id = 1, editors = [\<lparr>input_name = ''a.ts'', input_description_short = Str ''src'', input_description_medium = Str ''app/src'', input_description_long = Str ''/home/app/src'', input_title_long = Str ''/home/app/src/a.ts''\<rparr>], activeEditor = Some (\<lparr>input_name = ''a.ts'', input_description_short = Str ''src'', input_description_medium = Str ''app/src'', input_description_long = Str ''/home/app/src'', input_title_long = Str ''/home/app/src/a.ts''\<rparr>)\<rparr>,
        tabsContainer = \<lparr>container_offsetWidth = 400, container_scrollWidth = 900,
          children = [\<lparr>offsetLeft = 500, offsetWidth = 80\<rparr>], scroll_class = False,
          dropFeedback = False\<rparr>,
        scrollbar = \<lparr>sb_width = 300, sb_scrollWidth = 700, sb_scrollLeft = 50\<rparr>,
        tabLabels = [], dimension = None, layoutScheduled = True,
        blockRevealActiveTab = True, transfer = None\<rparr>"
      "\<lparr>offsetLeft = 500, offsetWidth = 80\<rparr>"]
  by (simp add: getTab_def getIndexOfEditor_def)

subsection \<open>The resolver: writes to descriptions\<close>


lemma setDescription_length [simp]: "length (setDescription i d ls) = length ls"
  by (simp add: setDescription_def)

lemma setDescription_frame_nth:
  "j < length ls \<Longrightarrow> frame (setDescription i d ls ! j) = frame (ls ! j)"
  by (cases "j = i") (simp_all add: setDescription_def frame_def)

lemma setDescription_frame [simp]: "map frame (setDescription i d ls) = map frame ls"
  by (rule nth_equalityI) (simp_all add: setDescription_frame_nth)

lemma setDescription_nth_other: "j \<noteq> i \<Longrightarrow> setDescription i d ls ! j = ls ! j"
  by (simp add: setDescription_def)

lemma setDescription_description:
  "j < length ls \<Longrightarrow> description (setDescription i d ls ! j) = (if j = i then d else description (ls ! j))"
  by (simp add: setDescription_def nth_list_update)

lemma frame_nth: "map frame a = map frame b \<Longrightarrow> j < length b \<Longrightarrow> frame (a ! j) = frame (b ! j)"
  by (metis length_map nth_map)

lemma frame_editor: "map frame a = map frame b \<Longrightarrow> j < length b \<Longrightarrow> editor (a ! j) = editor (b ! j)"
  using frame_nth [of a b j] by (simp add: frame_def)


lemma frame_length: "map frame a = map frame b \<Longrightarrow> length a = length b"
  by (metis length_map)

text \<open>A fold of description writes whose value depends on the position only.\<close>

lemma fold_setDescription_length [simp]:
  "length (fold (\<lambda>i. setDescription i (f i)) js ls) = length ls"
  by (induction js arbitrary: ls) simp_all

lemma fold_setDescription_frame [simp]:
  "map frame (fold (\<lambda>i. setDescription i (f i)) js ls) = map frame ls"
  by (induction js arbitrary: ls) simp_all

lemma fold_setDescription_other:
  "j \<notin> set js \<Longrightarrow> fold (\<lambda>i. setDescription i (f i)) js ls ! j = ls ! j"
  by (induction js arbitrary: ls) (auto simp: setDescription_nth_other)

lemma fold_setDescription_description:
  "j < length ls \<Longrightarrow> j \<in> set js \<Longrightarrow>
     description (fold (\<lambda>i. setDescription i (f i)) js ls ! j) = f j"
proof (induction js arbitrary: ls)
  case Nil
  then show ?case by simp
next
  case (Cons i js)
  show ?case
  proof (cases "j \<in> set js")
    case True
    then show ?thesis using Cons by simp
  next
    case False
    then have "j = i" using Cons.prems by simp
    then show ?thesis
      using False Cons.prems by (simp add: fold_setDescription_other setDescription_description)
  qed
qed

lemma setDescriptions_length [simp]: "length (setDescriptions e d ls) = length ls"
  by (simp add: setDescriptions_def)

lemma setDescriptions_frame [simp]: "map frame (setDescriptions e d ls) = map frame ls"
  by (simp add: setDescriptions_def)

lemma setDescriptions_other: "j \<notin> set e \<Longrightarrow> setDescriptions e d ls ! j = ls ! j"
  by (simp add: setDescriptions_def fold_setDescription_other)

lemma setDescriptions_description:
  "j < length ls \<Longrightarrow> j \<in> set e \<Longrightarrow> description (setDescriptions e d ls ! j) = d"
  by (simp add: setDescriptions_def fold_setDescription_description)


lemma getOrSet_push_map_of:
  "map_of (getOrSet_push m k i) =
     (map_of m)(k \<mapsto> (case map_of m k of None \<Rightarrow> [i] | Some v \<Rightarrow> v @ [i]))"
  by (induction m) (auto simp: fun_eq_iff)

lemma getOrSet_push_keys: "fst ` set (getOrSet_push m k i) = insert k (fst ` set m)"
proof (induction m)
  case Nil
  then show ?case by simp
next
  case (Cons p m)
  obtain k' v where p: "p = (k', v)" by (cases p)
  show ?case
  proof (cases "k' = k")
    case True
    then show ?thesis using p by auto
  next
    case False
    then have "fst ` set (getOrSet_push (p # m) k i) = insert k' (fst ` set (getOrSet_push m k i))"
      using p by simp
    then show ?thesis using Cons p by auto
  qed
qed

lemma getOrSet_push_distinct:
  "distinct (map fst m) \<Longrightarrow> distinct (map fst (getOrSet_push m k i))"
  by (induction m) (auto simp: getOrSet_push_keys)

text \<open>
  The descriptions that the resolver looks up are the keys of the map it looks them up in:
  \<^verbatim>\<open>mapDescriptionToDuplicates.get(description)\<close> is never \<^verbatim>\<open>undefined\<close>.
\<close>

lemma descriptions_have_entries: "d \<in> set (map fst m) \<Longrightarrow> map_of m d \<noteq> None"
  by (simp add: map_of_eq_None_iff)

lemma buckets_snoc: "buckets key (js @ [i]) = getOrSet_push (buckets key js) (key i) i"
  by (simp add: buckets_def)

lemma buckets_keys: "fst ` set (buckets key js) = key ` set js"
  by (induction js rule: rev_induct) (auto simp: buckets_snoc getOrSet_push_keys, simp add: buckets_def)

lemma buckets_distinct: "distinct (map fst (buckets key js))"
  by (induction js rule: rev_induct) (simp_all add: buckets_snoc getOrSet_push_distinct, simp add: buckets_def)

lemma buckets_map_of:
  "map_of (buckets key js) k =
     (if k \<in> key ` set js then Some (filter (\<lambda>i. key i = k) js) else None)"
proof (induction js rule: rev_induct)
  case Nil
  then show ?case by (simp add: buckets_def)
next
  case (snoc i js)
  have none: "filter (\<lambda>j. key j = k) js = []" if "k \<notin> key ` set js"
    using that by (auto simp: filter_empty_conv)
  show ?case
  proof (cases "key i = k")
    case True
    then show ?thesis
      using snoc none by (simp add: buckets_snoc getOrSet_push_map_of)
  next
    case False
    then show ?thesis
      using snoc by (simp add: buckets_snoc getOrSet_push_map_of)
  qed
qed

lemma buckets_entry:
  "(k, e) \<in> set (buckets key js) \<longleftrightarrow> k \<in> key ` set js \<and> e = filter (\<lambda>i. key i = k) js"
  using map_of_eq_Some_iff [OF buckets_distinct, of key js k e]
  by (auto simp: buckets_map_of split: if_splits)


lemma buckets_cong:
  "(\<And>i. i \<in> set js \<Longrightarrow> key i = key' i) \<Longrightarrow> buckets key js = buckets key' js"
  unfolding buckets_def by (rule fold_cong) auto

text \<open>The decision to use long descriptions\<close>

lemma longDescriptionsDiffer_iff:
  "longDescriptionsDiffer ls e \<longleftrightarrow> (\<exists>i \<in> set e. \<exists>j \<in> set e. longOf ls i \<noteq> longOf ls j)"
proof (cases e)
  case Nil
  then show ?thesis by (simp add: longDescriptionsDiffer_def)
next
  case (Cons a rest)
  have "longDescriptionsDiffer ls e \<longleftrightarrow> (\<exists>j \<in> set rest. longOf ls j \<noteq> longOf ls a)"
    using Cons by (auto simp: longDescriptionsDiffer_def list_ex_iff longOf_def)
  also have "\<dots> \<longleftrightarrow> (\<exists>i \<in> set e. \<exists>j \<in> set e. longOf ls i \<noteq> longOf ls j)"
    using Cons by (auto; metis)
  finally show ?thesis .
qed

lemma useLongDescriptions_fold:
  "fold (\<lambda>(d, e) useLong. if \<not> useLong \<and> length e > 1 then longDescriptionsDiffer ls e else useLong) m u
     \<longleftrightarrow> u \<or> (\<exists>(d, e) \<in> set m. length e > 1 \<and> longDescriptionsDiffer ls e)"
  by (induction m arbitrary: u) (auto split: prod.splits)

lemma useLongDescriptions_iff:
  "useLongDescriptions ls m \<longleftrightarrow> (\<exists>(d, e) \<in> set m. longDescriptionsDiffer ls e)"
proof -
  have "longDescriptionsDiffer ls e \<Longrightarrow> length e > 1" for e
    by (cases e; cases "tl e") (auto simp: longDescriptionsDiffer_def)
  then show ?thesis
    unfolding useLongDescriptions_def useLongDescriptions_fold by auto
qed

lemma useLongDescriptions_gather:
  "useLongDescriptions ls (gatherDescriptions ls g) \<longleftrightarrow> needLong ls g"
proof -
  have g: "gatherDescriptions ls g = buckets (\<lambda>i. description (ls ! i)) g"
    by (simp add: gatherDescriptions_def buckets_def)
  show ?thesis
  proof
    assume "useLongDescriptions ls (gatherDescriptions ls g)"
    then obtain d e where "(d, e) \<in> set (buckets (\<lambda>i. description (ls ! i)) g)"
      and "longDescriptionsDiffer ls e"
      unfolding useLongDescriptions_iff g by auto
    then obtain i j where "i \<in> set g" "j \<in> set g" "description (ls ! i) = d"
      "description (ls ! j) = d" "longOf ls i \<noteq> longOf ls j"
      by (auto simp: buckets_entry longDescriptionsDiffer_iff)
    then show "needLong ls g"
      unfolding needLong_def by metis
  next
    assume "needLong ls g"
    then obtain i j where ij: "i \<in> set g" "j \<in> set g"
      "description (ls ! i) = description (ls ! j)" "longOf ls i \<noteq> longOf ls j"
      unfolding needLong_def by auto
    let ?e = "filter (\<lambda>k. description (ls ! k) = description (ls ! i)) g"
    have "(description (ls ! i), ?e) \<in> set (buckets (\<lambda>i. description (ls ! i)) g)"
      using ij by (simp add: buckets_entry)
    moreover have "longDescriptionsDiffer ls ?e"
      unfolding longDescriptionsDiffer_iff using ij by auto
    ultimately show "useLongDescriptions ls (gatherDescriptions ls g)"
      unfolding useLongDescriptions_iff g by blast
  qed
qed

text \<open>Replacing by long descriptions\<close>

lemma replaceWithLong_fold:
  assumes "set js \<subseteq> {..<length ls}" and "map frame l = map frame ls"
  shows "fold replaceWithLong_step js (l, m) =
           (fold (\<lambda>i. setDescription i (longOf ls i)) js l,
            fold (\<lambda>i m. getOrSet_push m (longOf ls i) i) js m)"
  using assms
proof (induction js arbitrary: l m)
  case Nil
  then show ?case by simp
next
  case (Cons i js)
  have i: "i < length ls" "i < length l"
    using Cons.prems frame_length [of l ls] by auto
  have "editor (l ! i) = editor (ls ! i)"
    using Cons.prems(2) i(1) by (rule frame_editor)
  then have step: "replaceWithLong_step i (l, m) =
      (setDescription i (longOf ls i) l, getOrSet_push m (longOf ls i) i)"
    using i by (simp add: replaceWithLong_step_def Let_def longOf_def setDescription_description)
  have "map frame (setDescription i (longOf ls i) l) = map frame ls"
    using Cons.prems by simp
  then show ?case
    using Cons.IH [of "setDescription i (longOf ls i) l"] Cons.prems step by simp
qed

lemma replaceWithLong_eq:
  "set g \<subseteq> {..<length ls} \<Longrightarrow>
     replaceWithLong ls g = (fold (\<lambda>i. setDescription i (longOf ls i)) g ls, buckets (longOf ls) g)"
  by (simp add: replaceWithLong_def replaceWithLong_fold buckets_def)

text \<open>Assigning the shortened descriptions\<close>

lemma assignShortened_length [simp]: "length (assignShortened S m ds k ls) = length ls"
  by (induction ds arbitrary: k ls) (simp_all split: option.splits)

lemma assignShortened_frame [simp]: "map frame (assignShortened S m ds k ls) = map frame ls"
  by (induction ds arbitrary: k ls) (simp_all split: option.splits)

lemma assignShortened_other:
  "(\<And>d e. d \<in> set ds \<Longrightarrow> map_of m d = Some e \<Longrightarrow> j \<notin> set e) \<Longrightarrow>
     assignShortened S m ds k ls ! j = ls ! j"
proof (induction ds arbitrary: k ls)
  case Nil
  then show ?case by simp
next
  case (Cons d ds)
  let ?ls = "case map_of m d of Some e \<Rightarrow> setDescriptions e (js_nth S k) ls | None \<Rightarrow> ls"
  have "?ls ! j = ls ! j"
    using Cons.prems [of d] by (auto split: option.splits simp: setDescriptions_other)
  moreover have "assignShortened S m ds (Suc k) ?ls ! j = ?ls ! j"
  proof (rule Cons.IH)
    fix d' e assume "d' \<in> set ds" and "map_of m d' = Some e"
    then show "j \<notin> set e"
      using Cons.prems [of d' e] by simp
  qed
  ultimately show ?case
    by (simp only: assignShortened.simps)
qed

lemma assignShortened_description:
  assumes "distinct ds"
    and "\<And>d. d \<in> set ds \<Longrightarrow> map_of m d = Some (filter (\<lambda>i. key i = d) g)"
    and "i \<in> set g" and "i < length ls" and "k < length ds" and "ds ! k = key i"
  shows "description (assignShortened S m ds k0 ls ! i) = js_nth S (k0 + k)"
  using assms
proof (induction ds arbitrary: k k0 ls)
  case Nil
  then show ?case by simp
next
  case (Cons d ds)
  let ?e = "filter (\<lambda>i. key i = d) g"
  let ?ls = "setDescriptions ?e (js_nth S k0) ls"
  have m: "map_of m d = Some ?e"
    using Cons.prems(2) [of d] by simp
  then have unfold: "assignShortened S m (d # ds) k0 ls = assignShortened S m ds (Suc k0) ?ls"
    by simp
  show ?case
  proof (cases k)
    case 0
    then have d: "d = key i" using Cons.prems(6) by simp
    then have "i \<in> set ?e" using Cons.prems(3) by simp
    then have now: "description (?ls ! i) = js_nth S k0"
      using Cons.prems(4) by (simp add: setDescriptions_description)
    have "assignShortened S m ds (Suc k0) ?ls ! i = ?ls ! i"
    proof (rule assignShortened_other)
      fix d' e assume "d' \<in> set ds" and "map_of m d' = Some e"
      then have "e = filter (\<lambda>i. key i = d') g"
        using Cons.prems(2) [of d'] by simp
      moreover have "d' \<noteq> d"
        using \<open>d' \<in> set ds\<close> Cons.prems(1) by auto
      ultimately show "i \<notin> set e" using d by simp
    qed
    then show ?thesis using unfold now 0 by simp
  next
    case (Suc k')
    have "description (assignShortened S m ds (Suc k0) ?ls ! i) = js_nth S (Suc k0 + k')"
    proof (rule Cons.IH)
      show "distinct ds" using Cons.prems(1) by simp
      show "map_of m d' = Some (filter (\<lambda>i. key i = d') g)" if "d' \<in> set ds" for d'
        using that Cons.prems(2) [of d'] by simp
      show "i \<in> set g" by (rule Cons.prems(3))
      show "i < length ?ls" using Cons.prems(4) by simp
      show "k' < length ds" using Cons.prems(5) Suc by simp
      show "ds ! k' = key i" using Cons.prems(6) Suc by simp
    qed
    then show ?thesis using unfold Suc by simp
  qed
qed

lemma shortenDuplicateTitles_unfold:
  assumes "set g \<subseteq> {..<length ls}" and "length g \<noteq> 1"
  shows "shortenDuplicateTitles sh g ls =
     (let m = buckets (keyOf ls g) g;
          ls1 = (if needLong ls g then fold (\<lambda>i. setDescription i (longOf ls i)) g ls else ls);
          ds = groupKeys ls g
      in if length ds = 1
         then (case map_of m (ds ! 0) of Some e \<Rightarrow> setDescriptions e (Str []) ls1 | None \<Rightarrow> ls1)
         else assignShortened (sh ds) m ds 0 ls1)"
proof (cases "needLong ls g")
  case True
  then have "buckets (keyOf ls g) g = buckets (longOf ls) g"
    by (intro buckets_cong) (simp add: keyOf_def)
  then show ?thesis
    using assms True
    by (simp add: shortenDuplicateTitles_def useLongDescriptions_gather replaceWithLong_eq
        groupKeys_def Let_def)
next
  case False
  then have "buckets (keyOf ls g) g = gatherDescriptions ls g"
    by (simp add: keyOf_def gatherDescriptions_def buckets_def)
  then show ?thesis
    using assms False
    by (simp add: shortenDuplicateTitles_def useLongDescriptions_gather groupKeys_def Let_def)
qed

lemma groupKeys_set: "set (groupKeys ls g) = keyOf ls g ` set g"
  by (simp add: groupKeys_def buckets_keys)

lemma groupKeys_distinct: "distinct (groupKeys ls g)"
  by (simp add: groupKeys_def buckets_distinct)

lemma shortenDuplicateTitles_frame:
  assumes "set g \<subseteq> {..<length ls}"
  shows "map frame (shortenDuplicateTitles sh g ls) = map frame ls"
proof (cases "length g = 1")
  case True
  then show ?thesis by (simp add: shortenDuplicateTitles_def)
next
  case False
  then show ?thesis
    using assms by (simp add: shortenDuplicateTitles_unfold Let_def split: option.splits)
qed

lemma shortenDuplicateTitles_length:
  "set g \<subseteq> {..<length ls} \<Longrightarrow> length (shortenDuplicateTitles sh g ls) = length ls"
  using shortenDuplicateTitles_frame [of g ls sh] frame_length by blast

lemma shortenDuplicateTitles_other:
  assumes "set g \<subseteq> {..<length ls}" and "j \<notin> set g"
  shows "shortenDuplicateTitles sh g ls ! j = ls ! j"
proof (cases "length g = 1")
  case True
  then have "g ! 0 \<in> set g" by (cases g) auto
  then have "j \<noteq> g ! 0" using assms by auto
  then show ?thesis
    using True by (simp add: shortenDuplicateTitles_def setDescription_nth_other)
next
  case False
  let ?m = "buckets (keyOf ls g) g"
  let ?ls1 = "if needLong ls g then fold (\<lambda>i. setDescription i (longOf ls i)) g ls else ls"
  have ls1: "?ls1 ! j = ls ! j"
    using assms(2) by (simp add: fold_setDescription_other)
  have entry: "j \<notin> set e" if "map_of ?m d = Some e" for d e
    using that assms(2) by (auto simp: buckets_map_of split: if_splits)
  have a: "(case map_of ?m d of Some e \<Rightarrow> setDescriptions e x ?ls1 | None \<Rightarrow> ?ls1) ! j = ls ! j" for d x
    using entry [of d] ls1 by (cases "map_of ?m d") (simp_all add: setDescriptions_other)
  have b: "assignShortened S ?m ds 0 ?ls1 ! j = ls ! j" for S ds
    using assignShortened_other [of ds ?m j S 0 ?ls1] entry ls1 by simp
  show ?thesis
    unfolding shortenDuplicateTitles_unfold [OF assms(1) False] Let_def
    using a b by presburger
qed

lemma shortenDuplicateTitles_single:
  assumes "i < length ls"
  shows "description (shortenDuplicateTitles sh [i] ls ! i) = Str []"
  using assms by (simp add: shortenDuplicateTitles_def setDescription_description)

lemma shortenDuplicateTitles_cleared:
  assumes "set g \<subseteq> {..<length ls}" and "length g \<noteq> 1" and "i \<in> set g"
    and "length (groupKeys ls g) = 1"
  shows "description (shortenDuplicateTitles sh g ls ! i) = Str []"
proof -
  let ?m = "buckets (keyOf ls g) g"
  let ?ls1 = "if needLong ls g then fold (\<lambda>i. setDescription i (longOf ls i)) g ls else ls"
  let ?ds = "groupKeys ls g"
  have "keyOf ls g i \<in> set ?ds"
    using assms(3) by (simp add: groupKeys_set)
  moreover have "set ?ds = {?ds ! 0}"
    using assms(4) by (cases ?ds) auto
  ultimately have key: "keyOf ls g i = ?ds ! 0"
    by simp
  then have m: "map_of ?m (?ds ! 0) = Some (filter (\<lambda>j. keyOf ls g j = ?ds ! 0) g)"
    using assms(3) by (simp add: buckets_map_of) (metis imageI)
  have i: "i < length ?ls1"
    using assms(1,3) by auto
  have "description (setDescriptions (filter (\<lambda>j. keyOf ls g j = ?ds ! 0) g) (Str []) ?ls1 ! i) = Str []"
    using i key assms(3) by (intro setDescriptions_description) auto
  then show ?thesis
    unfolding shortenDuplicateTitles_unfold [OF assms(1,2)] Let_def
    using assms(4) m by simp
qed

lemma shortenDuplicateTitles_shortened:
  assumes "set g \<subseteq> {..<length ls}" and "length g \<noteq> 1" and "i \<in> set g"
    and "length (groupKeys ls g) \<noteq> 1"
    and "k < length (groupKeys ls g)" and "groupKeys ls g ! k = keyOf ls g i"
  shows "description (shortenDuplicateTitles sh g ls ! i) = js_nth (sh (groupKeys ls g)) k"
proof -
  let ?m = "buckets (keyOf ls g) g"
  let ?ls1 = "if needLong ls g then fold (\<lambda>i. setDescription i (longOf ls i)) g ls else ls"
  let ?ds = "groupKeys ls g"
  have i: "i < length ?ls1"
    using assms(1,3) by auto
  have "description (assignShortened (sh ?ds) ?m ?ds 0 ?ls1 ! i) = js_nth (sh ?ds) (0 + k)"
  proof (rule assignShortened_description [where key = "keyOf ls g" and g = g])
    show "distinct ?ds" by (rule groupKeys_distinct)
    show "map_of ?m d = Some (filter (\<lambda>i. keyOf ls g i = d) g)" if "d \<in> set ?ds" for d
      using that by (simp add: buckets_map_of groupKeys_set)
  qed (use assms i in auto)
  then show ?thesis
    unfolding shortenDuplicateTitles_unfold [OF assms(1,2)] Let_def
    using assms(4) by simp
qed

lemma take_drop_update:
  "k < length ls \<Longrightarrow>
     (take k (map f ls) @ drop k ls)[k := f (ls ! k)] = take (Suc k) (map f ls) @ drop (Suc k) ls"
  by (rule nth_equalityI) (auto simp: nth_append nth_list_update less_Suc_eq)

lemma take_drop_same:
  "k < length ls \<Longrightarrow> f (ls ! k) = ls ! k \<Longrightarrow>
     take k (map f ls) @ drop k ls = take (Suc k) (map f ls) @ drop (Suc k) ls"
  using take_drop_update [of k ls f] list_update_id [of "take k (map f ls) @ drop k ls" k]
  by (simp add: nth_append)

lemma gatherTitles_prefix:
  "k \<le> length ls \<Longrightarrow>
     fold gatherTitles_step [0..<k] (ls, []) =
       (take k (map clearNonString ls) @ drop k ls,
        buckets (\<lambda>i. name (ls ! i)) (filter (\<lambda>i. is_string (description (ls ! i))) [0..<k]))"
proof (induction k)
  case 0
  then show ?case by (simp add: buckets_def)
next
  case (Suc k)
  let ?L = "take k (map clearNonString ls) @ drop k ls"
  have k: "k < length ls" using Suc.prems by simp
  have nth: "?L ! k = ls ! k"
    using k by (simp add: nth_append)
  show ?case
  proof (cases "is_string (description (ls ! k))")
    case True
    then have "clearNonString (ls ! k) = ls ! k"
      by (simp add: clearNonString_def)
    then have "?L = take (Suc k) (map clearNonString ls) @ drop (Suc k) ls"
      using k by (rule take_drop_same [rotated])
    then show ?thesis
      using Suc k True nth by (simp add: gatherTitles_step_def buckets_snoc)
  next
    case False
    then have "clearNonString (ls ! k) = (ls ! k)\<lparr>description := Str []\<rparr>"
      by (simp add: clearNonString_def)
    then have "setDescription k (Str []) ?L = take (Suc k) (map clearNonString ls) @ drop (Suc k) ls"
      using take_drop_update [of k ls clearNonString] k nth by (simp add: setDescription_def)
    then show ?thesis
      using Suc k False nth by (simp add: gatherTitles_step_def)
  qed
qed

lemma gatherTitles_eq:
  "gatherTitles ls = (map clearNonString ls, buckets (\<lambda>i. name (ls ! i)) (stringPositions ls))"
  by (simp add: gatherTitles_def gatherTitles_prefix stringPositions_def)

lemma groups_ok_Cons: "groups_ok n (p # mt) \<Longrightarrow> groups_ok n mt"
  unfolding groups_ok_def by (simp; blast)

lemma groups_ok_valid: "groups_ok n mt \<Longrightarrow> (k, g) \<in> set mt \<Longrightarrow> set g \<subseteq> {..<n}"
  unfolding groups_ok_def by blast

lemma groups_ok_disjoint:
  "groups_ok n mt \<Longrightarrow> (k, g) \<in> set mt \<Longrightarrow> (k', g') \<in> set mt \<Longrightarrow> k \<noteq> k' \<Longrightarrow>
     set g \<inter> set g' = {}"
  unfolding groups_ok_def by blast

lemma groups_ok_fresh: "groups_ok n ((k, g) # mt) \<Longrightarrow> (k', g') \<in> set mt \<Longrightarrow> k' \<noteq> k"
  unfolding groups_ok_def by (metis distinct.simps(2) fst_conv image_eqI list.simps(9) set_map)

lemma fold_groups_frame:
  "(\<forall>(k, g) \<in> set mt. set g \<subseteq> {..<length ls}) \<Longrightarrow>
     map frame (fold (\<lambda>(n, g). shortenDuplicateTitles sh g) mt ls) = map frame ls"
proof (induction mt arbitrary: ls)
  case Nil
  then show ?case by simp
next
  case (Cons p mt)
  obtain k g where p: "p = (k, g)" by (cases p)
  have g: "set g \<subseteq> {..<length ls}" using Cons.prems p by auto
  have "map frame (fold (\<lambda>(n, g). shortenDuplicateTitles sh g) mt (shortenDuplicateTitles sh g ls))
      = map frame (shortenDuplicateTitles sh g ls)"
    using Cons.prems g by (intro Cons.IH) (auto simp: shortenDuplicateTitles_length)
  then show ?case
    using p g by (simp add: shortenDuplicateTitles_frame)
qed

lemma fold_groups_other:
  "(\<forall>(k, g) \<in> set mt. set g \<subseteq> {..<length ls} \<and> j \<notin> set g) \<Longrightarrow>
     fold (\<lambda>(n, g). shortenDuplicateTitles sh g) mt ls ! j = ls ! j"
proof (induction mt arbitrary: ls)
  case Nil
  then show ?case by simp
next
  case (Cons p mt)
  obtain k g where p: "p = (k, g)" by (cases p)
  have g: "set g \<subseteq> {..<length ls}" "j \<notin> set g" using Cons.prems p by auto
  have "fold (\<lambda>(n, g). shortenDuplicateTitles sh g) mt (shortenDuplicateTitles sh g ls) ! j
      = shortenDuplicateTitles sh g ls ! j"
    using Cons.prems g by (intro Cons.IH) (auto simp: shortenDuplicateTitles_length)
  then show ?case
    using p g by (simp add: shortenDuplicateTitles_other)
qed

lemma fold_groups_local:
  assumes "groups_ok (length ls) mt" and "(k, g) \<in> set mt"
  shows "\<exists>ls'. length ls' = length ls \<and> (\<forall>j \<in> set g. ls' ! j = ls ! j) \<and>
           (\<forall>i \<in> set g. fold (\<lambda>(n, g). shortenDuplicateTitles sh g) mt ls ! i
                            = shortenDuplicateTitles sh g ls' ! i)"
  using assms
proof (induction mt arbitrary: ls)
  case Nil
  then show ?case by simp
next
  case (Cons p mt)
  obtain k' g' where p: "p = (k', g')" by (cases p)
  have ok: "groups_ok (length ls) ((k', g') # mt)"
    using Cons.prems(1) p by simp
  have g': "set g' \<subseteq> {..<length ls}"
    using groups_ok_valid [OF ok, of k' g'] by simp
  let ?ls = "shortenDuplicateTitles sh g' ls"
  have len: "length ?ls = length ls"
    using g' by (rule shortenDuplicateTitles_length)
  show ?case
  proof (cases "(k, g) = (k', g')")
    case True
    have "fold (\<lambda>(n, g). shortenDuplicateTitles sh g) mt ?ls ! i = ?ls ! i" if "i \<in> set g" for i
    proof (rule fold_groups_other, clarify)
      fix k2 g2 assume in_mt: "(k2, g2) \<in> set mt"
      then have "k2 \<noteq> k"
        using ok True groups_ok_fresh by fastforce
      then have "set g \<inter> set g2 = {}"
        using groups_ok_disjoint [OF ok, of k g k2 g2] in_mt True by simp
      moreover have "set g2 \<subseteq> {..<length ls}"
        using groups_ok_valid [OF ok, of k2 g2] in_mt by simp
      ultimately show "set g2 \<subseteq> {..<length ?ls} \<and> i \<notin> set g2"
        using that len by auto
    qed
    then show ?thesis
      using True p by (intro exI [of _ ls]) simp
  next
    case False
    then have in_mt: "(k, g) \<in> set mt"
      using Cons.prems(2) p by auto
    then have "k \<noteq> k'"
      using ok groups_ok_fresh by fastforce
    then have disj: "set g \<inter> set g' = {}"
      using groups_ok_disjoint [OF ok, of k g k' g'] in_mt by simp
    have "groups_ok (length ?ls) mt"
      using ok len groups_ok_Cons by fastforce
    from Cons.IH [OF this in_mt]
    obtain ls' where ls': "length ls' = length ?ls" "\<forall>j \<in> set g. ls' ! j = ?ls ! j"
      "\<forall>i \<in> set g. fold (\<lambda>(n, g). shortenDuplicateTitles sh g) mt ?ls ! i
                            = shortenDuplicateTitles sh g ls' ! i"
      by blast
    have "?ls ! j = ls ! j" if "j \<in> set g" for j
      using that disj by (intro shortenDuplicateTitles_other [OF g']) auto
    then have "\<forall>j \<in> set g. ls' ! j = ls ! j"
      using ls'(2) by simp
    then show ?thesis
      using ls' len p by (intro exI [of _ ls']) simp
  qed
qed

text \<open>The whole resolver, label by label\<close>

lemma sameName_filter:
  "sameName ls i = filter (\<lambda>j. name (ls ! j) = name (ls ! i)) (stringPositions ls)"
  by (simp add: sameName_def stringPositions_def conj_commute)

lemma sameName_valid: "set (sameName ls i) \<subseteq> {..<length ls}"
  by (auto simp: sameName_def)

lemma sameName_self:
  "i < length ls \<Longrightarrow> is_string (description (ls ! i)) \<Longrightarrow> i \<in> set (sameName ls i)"
  by (simp add: sameName_def)


lemma titles_groups_ok:
  "groups_ok (length ls) (buckets (\<lambda>i. name (ls ! i)) (stringPositions ls))"
  unfolding groups_ok_def
proof (intro conjI allI impI)
  show "distinct (map fst (buckets (\<lambda>i. name (ls ! i)) (stringPositions ls)))"
    by (rule buckets_distinct)
next
  fix k g assume "(k, g) \<in> set (buckets (\<lambda>i. name (ls ! i)) (stringPositions ls))"
  then show "set g \<subseteq> {..<length ls}"
    by (auto simp: buckets_entry stringPositions_def)
next
  fix k g k' g'
  assume "(k, g) \<in> set (buckets (\<lambda>i. name (ls ! i)) (stringPositions ls))"
    and "(k', g') \<in> set (buckets (\<lambda>i. name (ls ! i)) (stringPositions ls))"
    and "k \<noteq> k'"
  then show "set g \<inter> set g' = {}"
    by (auto simp: buckets_entry)
qed

lemma titles_group_member:
  assumes "i < length ls" and "is_string (description (ls ! i))"
  shows "(name (ls ! i), sameName ls i) \<in> set (buckets (\<lambda>i. name (ls ! i)) (stringPositions ls))"
proof -
  have "i \<in> set (stringPositions ls)"
    using assms by (simp add: stringPositions_def)
  then show ?thesis
    by (simp add: buckets_entry sameName_filter)
qed

lemma clearNonString_frame [simp]: "frame (clearNonString l) = frame l"
  by (simp add: clearNonString_def frame_def)

lemma shortenTabLabels_frame: "map frame (shortenTabLabels sh ls) = map frame ls"
proof -
  let ?mt = "buckets (\<lambda>i. name (ls ! i)) (stringPositions ls)"
  have "\<forall>(k, g) \<in> set ?mt. set g \<subseteq> {..<length (map clearNonString ls)}"
    using groups_ok_valid [OF titles_groups_ok, of _ _ ls] by auto
  then have "map frame (fold (\<lambda>(n, g). shortenDuplicateTitles sh g) ?mt (map clearNonString ls))
      = map frame (map clearNonString ls)"
    by (rule fold_groups_frame)
  then show ?thesis
    by (simp add: shortenTabLabels_def gatherTitles_eq comp_def)
qed


lemma shortenTabLabels_non_string:
  assumes "i < length ls" and "\<not> is_string (description (ls ! i))"
  shows "description (shortenTabLabels sh ls ! i) = Str []"
proof -
  let ?mt = "buckets (\<lambda>i. name (ls ! i)) (stringPositions ls)"
  have "\<forall>(k, g) \<in> set ?mt. set g \<subseteq> {..<length (map clearNonString ls)} \<and> i \<notin> set g"
    using assms(2) by (auto simp: buckets_entry stringPositions_def)
  then have "fold (\<lambda>(n, g). shortenDuplicateTitles sh g) ?mt (map clearNonString ls) ! i
      = map clearNonString ls ! i"
    by (rule fold_groups_other)
  then show ?thesis
    using assms by (simp add: shortenTabLabels_def gatherTitles_eq clearNonString_def)
qed

lemma shortenTabLabels_local:
  assumes "i < length ls" and "is_string (description (ls ! i))"
  shows "\<exists>ls'. length ls' = length ls \<and> (\<forall>j \<in> set (sameName ls i). ls' ! j = ls ! j) \<and>
           shortenTabLabels sh ls ! i = shortenDuplicateTitles sh (sameName ls i) ls' ! i"
proof -
  let ?mt = "buckets (\<lambda>i. name (ls ! i)) (stringPositions ls)"
  let ?g = "sameName ls i"
  have "groups_ok (length (map clearNonString ls)) ?mt"
    using titles_groups_ok [of ls] by simp
  from fold_groups_local [OF this titles_group_member [OF assms], of sh]
  obtain ls' where ls': "length ls' = length (map clearNonString ls)"
    "\<forall>j \<in> set ?g. ls' ! j = map clearNonString ls ! j"
    "\<forall>i \<in> set ?g. fold (\<lambda>(n, g). shortenDuplicateTitles sh g) ?mt (map clearNonString ls) ! i
        = shortenDuplicateTitles sh ?g ls' ! i"
    by blast
  have "map clearNonString ls ! j = ls ! j" if "j \<in> set ?g" for j
    using that by (simp add: sameName_def clearNonString_def)
  then have "\<forall>j \<in> set ?g. ls' ! j = ls ! j"
    using ls'(2) by simp
  moreover have "shortenTabLabels sh ls ! i = shortenDuplicateTitles sh ?g ls' ! i"
    using ls'(3) sameName_self [OF assms] by (simp add: shortenTabLabels_def gatherTitles_eq)
  ultimately show ?thesis
    using ls'(1) by auto
qed

lemma needLong_cong: "\<forall>j \<in> set g. ls' ! j = ls ! j \<Longrightarrow> needLong ls' g = needLong ls g"
  by (simp add: needLong_def longOf_def)

lemma keyOf_cong:
  "\<forall>j \<in> set g. ls' ! j = ls ! j \<Longrightarrow> i \<in> set g \<Longrightarrow> keyOf ls' g i = keyOf ls g i"
  by (simp add: keyOf_def needLong_cong [of g ls' ls] longOf_def)

lemma groupKeys_cong: "\<forall>j \<in> set g. ls' ! j = ls ! j \<Longrightarrow> groupKeys ls' g = groupKeys ls g"
  unfolding groupKeys_def using buckets_cong [of g "keyOf ls' g" "keyOf ls g"] keyOf_cong
  by metis

lemma shortenTabLabels_unique:
  assumes "i < length ls" and "is_string (description (ls ! i))"
    and "length (sameName ls i) = 1"
  shows "description (shortenTabLabels sh ls ! i) = Str []"
proof -
  obtain ls' where ls': "length ls' = length ls"
    "shortenTabLabels sh ls ! i = shortenDuplicateTitles sh (sameName ls i) ls' ! i"
    using shortenTabLabels_local [OF assms(1,2), of sh] by blast
  have "sameName ls i = [i]"
    using assms(3) sameName_self [OF assms(1,2)] by (cases "sameName ls i") auto
  then show ?thesis
    using ls' assms(1) by (simp add: shortenDuplicateTitles_single)
qed

lemma shortenTabLabels_cleared:
  assumes "i < length ls" and "is_string (description (ls ! i))"
    and "length (sameName ls i) \<noteq> 1" and "length (groupKeys ls (sameName ls i)) = 1"
  shows "description (shortenTabLabels sh ls ! i) = Str []"
proof -
  let ?g = "sameName ls i"
  obtain ls' where ls': "length ls' = length ls" "\<forall>j \<in> set ?g. ls' ! j = ls ! j"
    "shortenTabLabels sh ls ! i = shortenDuplicateTitles sh ?g ls' ! i"
    using shortenTabLabels_local [OF assms(1,2), of sh] by blast
  have "description (shortenDuplicateTitles sh ?g ls' ! i) = Str []"
  proof (rule shortenDuplicateTitles_cleared)
    show "set ?g \<subseteq> {..<length ls'}" using ls'(1) sameName_valid [of ls i] by simp
    show "length ?g \<noteq> 1" by (rule assms(3))
    show "i \<in> set ?g" by (rule sameName_self [OF assms(1,2)])
    show "length (groupKeys ls' ?g) = 1" using assms(4) groupKeys_cong [OF ls'(2)] by simp
  qed
  then show ?thesis using ls'(3) by simp
qed

lemma shortenTabLabels_shortened:
  assumes "i < length ls" and "is_string (description (ls ! i))"
    and "length (sameName ls i) \<noteq> 1" and "length (groupKeys ls (sameName ls i)) \<noteq> 1"
    and "k < length (groupKeys ls (sameName ls i))"
    and "groupKeys ls (sameName ls i) ! k = keyOf ls (sameName ls i) i"
  shows "description (shortenTabLabels sh ls ! i) = js_nth (sh (groupKeys ls (sameName ls i))) k"
proof -
  let ?g = "sameName ls i"
  obtain ls' where ls': "length ls' = length ls" "\<forall>j \<in> set ?g. ls' ! j = ls ! j"
    "shortenTabLabels sh ls ! i = shortenDuplicateTitles sh ?g ls' ! i"
    using shortenTabLabels_local [OF assms(1,2), of sh] by blast
  have keys: "groupKeys ls' ?g = groupKeys ls ?g"
    by (rule groupKeys_cong [OF ls'(2)])
  have i: "i \<in> set ?g" by (rule sameName_self [OF assms(1,2)])
  have "description (shortenDuplicateTitles sh ?g ls' ! i) = js_nth (sh (groupKeys ls' ?g)) k"
  proof (rule shortenDuplicateTitles_shortened)
    show "set ?g \<subseteq> {..<length ls'}" using ls'(1) sameName_valid [of ls i] by simp
    show "length ?g \<noteq> 1" by (rule assms(3))
    show "i \<in> set ?g" by (rule i)
    show "length (groupKeys ls' ?g) \<noteq> 1" using assms(4) keys by simp
    show "k < length (groupKeys ls' ?g)" using assms(5) keys by simp
    show "groupKeys ls' ?g ! k = keyOf ls' ?g i"
      using assms(6) keys keyOf_cong [OF ls'(2) i] by simp
  qed
  then show ?thesis using ls'(3) keys by simp
qed

text \<open>From positions to labels\<close>

lemma sameName_length:
  "length (sameName ls i) =
     length (filter (\<lambda>l. is_string (description l) \<and> name l = name (ls ! i)) ls)"
proof -
  let ?P = "\<lambda>l. is_string (description l) \<and> name l = name (ls ! i)"
  have "filter ?P (map ((!) ls) [0..<length ls]) = map ((!) ls) (filter (?P \<circ> (!) ls) [0..<length ls])"
    by (rule filter_map)
  then have "length (filter ?P ls) = length (filter (?P \<circ> (!) ls) [0..<length ls])"
    by (simp add: map_nth)
  then show ?thesis
    by (simp add: sameName_def comp_def)
qed

lemma sameName_member:
  "j \<in> set (sameName ls i) \<longleftrightarrow>
     j < length ls \<and> is_string (description (ls ! j)) \<and> name (ls ! j) = name (ls ! i)"
  by (auto simp: sameName_def)

text \<open>
  C4: a label whose name occurs exactly once among the labels with string descriptions
  ends the resolver run with the empty description.
\<close>

theorem single_name_description_cleared:
  assumes "i < length labels"
    and "length (filter (\<lambda>l. is_string (description l) \<and> name l = name (labels ! i)) labels) = 1"
  shows "description (shortenTabLabels shorten labels ! i) = Str []"
proof (cases "is_string (description (labels ! i))")
  case True
  then show ?thesis
    using assms by (simp add: shortenTabLabels_unique sameName_length)
next
  case False
  then show ?thesis
    using assms(1) by (simp add: shortenTabLabels_non_string)
qed

theorem single_name_description_cleared_witness:
  "(let labels = map (editorLabel MEDIUM) [\<lparr>input_name = ''a.ts'', input_description_short = Str ''src'', input_description_medium = Str ''app/src'',
          input_description_long = Str ''/home/app/src'', input_title_long = Str ''/home/app/src/a.ts''\<rparr>, \<lparr>input_name = ''b.ts'', input_description_short = Str ''src'', input_description_medium = Str ''app/src'',
          input_description_long = Str ''/home/app/src'', input_title_long = Str ''/home/app/src/b.ts''\<rparr>]
    in description (shortenTabLabels (\<lambda>ds. ds) labels ! 0) = Str [] \<and>
       description (shortenTabLabels (\<lambda>ds. ds) labels ! 1) = Str [])"
  using single_name_description_cleared [of 0 "map (editorLabel MEDIUM) [\<lparr>input_name = ''a.ts'', input_description_short = Str ''src'', input_description_medium = Str ''app/src'',
          input_description_long = Str ''/home/app/src'', input_title_long = Str ''/home/app/src/a.ts''\<rparr>, \<lparr>input_name = ''b.ts'', input_description_short = Str ''src'', input_description_medium = Str ''app/src'',
          input_description_long = Str ''/home/app/src'', input_title_long = Str ''/home/app/src/b.ts''\<rparr>]" "\<lambda>ds. ds"]
    single_name_description_cleared [of 1 "map (editorLabel MEDIUM) [\<lparr>input_name = ''a.ts'', input_description_short = Str ''src'', input_description_medium = Str ''app/src'',
          input_description_long = Str ''/home/app/src'', input_title_long = Str ''/home/app/src/a.ts''\<rparr>, \<lparr>input_name = ''b.ts'', input_description_short = Str ''src'', input_description_medium = Str ''app/src'',
          input_description_long = Str ''/home/app/src'', input_title_long = Str ''/home/app/src/b.ts''\<rparr>]" "\<lambda>ds. ds"]
  by (simp add: editorLabel_def getName_def)

text \<open>
  C9: the resolver keeps the length and the order of the label array and changes nothing
  of a label but its description: the names, the titles and the editors of the result are
  those of the input, position by position.
\<close>

theorem resolver_changes_descriptions_only:
  "length (shortenTabLabels shorten labels) = length labels \<and>
   map name (shortenTabLabels shorten labels) = map name labels \<and>
   map title (shortenTabLabels shorten labels) = map title labels \<and>
   map editor (shortenTabLabels shorten labels) = map editor labels"
proof -
  have f: "map frame (shortenTabLabels shorten labels) = map frame labels"
    by (rule shortenTabLabels_frame)
  have "map (fst \<circ> frame) (shortenTabLabels shorten labels) = map (fst \<circ> frame) labels"
    "map (fst \<circ> snd \<circ> frame) (shortenTabLabels shorten labels) = map (fst \<circ> snd \<circ> frame) labels"
    "map (snd \<circ> snd \<circ> frame) (shortenTabLabels shorten labels) = map (snd \<circ> snd \<circ> frame) labels"
    using f by (metis map_map)+
  then show ?thesis
    using frame_length [OF f] by (simp add: comp_def frame_def)
qed

theorem resolver_changes_descriptions_only_witness:
  "(let labels = map (editorLabel MEDIUM) [\<lparr>input_name = ''a.ts'', input_description_short = Str ''src'', input_description_medium = Str ''app/src'',
          input_description_long = Str ''/home/app/src'', input_title_long = Str ''/home/app/src/a.ts''\<rparr>, \<lparr>input_name = ''a.ts'', input_description_short = Str ''src'', input_description_medium = Str ''lib/src'',
          input_description_long = Str ''/home/lib/src'', input_title_long = Str ''/home/lib/src/a.ts''\<rparr>, \<lparr>input_name = ''b.ts'', input_description_short = Str ''src'', input_description_medium = Str ''app/src'',
          input_description_long = Str ''/home/app/src'', input_title_long = Str ''/home/app/src/b.ts''\<rparr>];
        result = shortenTabLabels (\<lambda>ds. ds) labels
    in length result = 3 \<and> map name result = [''a.ts'', ''a.ts'', ''b.ts''] \<and>
       map title result = map title labels \<and> map editor result = [\<lparr>input_name = ''a.ts'', input_description_short = Str ''src'', input_description_medium = Str ''app/src'',
          input_description_long = Str ''/home/app/src'', input_title_long = Str ''/home/app/src/a.ts''\<rparr>, \<lparr>input_name = ''a.ts'', input_description_short = Str ''src'', input_description_medium = Str ''lib/src'',
          input_description_long = Str ''/home/lib/src'', input_title_long = Str ''/home/lib/src/a.ts''\<rparr>, \<lparr>input_name = ''b.ts'', input_description_short = Str ''src'', input_description_medium = Str ''app/src'',
          input_description_long = Str ''/home/app/src'', input_title_long = Str ''/home/app/src/b.ts''\<rparr>])"
  using resolver_changes_descriptions_only [of "\<lambda>ds. ds" "map (editorLabel MEDIUM) [\<lparr>input_name = ''a.ts'', input_description_short = Str ''src'', input_description_medium = Str ''app/src'',
          input_description_long = Str ''/home/app/src'', input_title_long = Str ''/home/app/src/a.ts''\<rparr>, \<lparr>input_name = ''a.ts'', input_description_short = Str ''src'', input_description_medium = Str ''lib/src'',
          input_description_long = Str ''/home/lib/src'', input_title_long = Str ''/home/lib/src/a.ts''\<rparr>, \<lparr>input_name = ''b.ts'', input_description_short = Str ''src'', input_description_medium = Str ''app/src'',
          input_description_long = Str ''/home/app/src'', input_title_long = Str ''/home/app/src/b.ts''\<rparr>]"]
  by (simp add: editorLabel_def getName_def)

subsection \<open>Equal keys, equal results\<close>

lemma shortenTabLabels_same_key:
  assumes "i < length ls" and "j < length ls"
    and "is_string (description (ls ! i))" and "is_string (description (ls ! j))"
    and "name (ls ! i) = name (ls ! j)"
    and "keyOf ls (sameName ls i) i = keyOf ls (sameName ls i) j"
  shows "description (shortenTabLabels sh ls ! i) = description (shortenTabLabels sh ls ! j)"
proof -
  let ?g = "sameName ls i"
  have g: "sameName ls j = ?g"
    using assms(5) by (simp add: sameName_def)
  have mem: "i \<in> set ?g" "j \<in> set ?g"
    using assms by (simp_all add: sameName_member)
  show ?thesis
  proof (cases "length ?g = 1")
    case True
    then show ?thesis
      using assms g by (simp add: shortenTabLabels_unique)
  next
    case False
    show ?thesis
    proof (cases "length (groupKeys ls ?g) = 1")
      case True
      then show ?thesis
        using assms g False by (simp add: shortenTabLabels_cleared)
    next
      case many: False
      have "keyOf ls ?g i \<in> set (groupKeys ls ?g)"
        using mem by (simp add: groupKeys_set)
      then obtain k where k: "k < length (groupKeys ls ?g)" "groupKeys ls ?g ! k = keyOf ls ?g i"
        by (auto simp: in_set_conv_nth)
      have "description (shortenTabLabels sh ls ! i) = js_nth (sh (groupKeys ls ?g)) k"
        using assms(1,3) False many k by (rule shortenTabLabels_shortened)
      moreover have "description (shortenTabLabels sh ls ! j) = js_nth (sh (groupKeys ls (sameName ls j))) k"
        using assms(2,4) False many k assms(6) unfolding g [symmetric]
        by (intro shortenTabLabels_shortened) simp_all
      ultimately show ?thesis
        using g by simp
    qed
  qed
qed

text \<open>
  C10, as amended: two labels that enter the resolver with the same name, the same string
  description and the same long description leave it with the same description.
\<close>

theorem same_long_description_same_result:
  assumes "i < length labels" and "j < length labels"
    and "name (labels ! i) = name (labels ! j)"
    and "description (labels ! i) = description (labels ! j)"
    and "is_string (description (labels ! i))"
    and "getDescription (editor (labels ! i)) LONG = getDescription (editor (labels ! j)) LONG"
  shows "description (shortenTabLabels shorten labels ! i)
           = description (shortenTabLabels shorten labels ! j)"
proof -
  have "keyOf labels (sameName labels i) i = keyOf labels (sameName labels i) j"
    using assms(4,6) by (simp add: keyOf_def longOf_def)
  then show ?thesis
    using assms by (intro shortenTabLabels_same_key) simp_all
qed

theorem same_long_description_same_result_witness:
  "(let labels = map (editorLabel MEDIUM) [\<lparr>input_name = ''a.ts'', input_description_short = Str ''src'', input_description_medium = Str ''app/src'',
          input_description_long = Str ''/home/app/src'', input_title_long = Str ''/home/app/src/a.ts''\<rparr>, \<lparr>input_name = ''a.ts'', input_description_short = Str ''src'', input_description_medium = Str ''app/src'',
          input_description_long = Str ''/home/app/src'', input_title_long = Str ''/home/app/src/a.ts (copy)''\<rparr>, \<lparr>input_name = ''a.ts'', input_description_short = Str ''src'', input_description_medium = Str ''lib/src'',
          input_description_long = Str ''/home/lib/src'', input_title_long = Str ''/home/lib/src/a.ts''\<rparr>];
        result = shortenTabLabels (\<lambda>ds. ds) labels
    in description (result ! 0) = description (result ! 1) \<and>
       description (result ! 0) = Str ''app/src'' \<and> description (result ! 2) = Str ''lib/src'')"
  using same_long_description_same_result [of 0 "map (editorLabel MEDIUM) [\<lparr>input_name = ''a.ts'', input_description_short = Str ''src'', input_description_medium = Str ''app/src'',
          input_description_long = Str ''/home/app/src'', input_title_long = Str ''/home/app/src/a.ts''\<rparr>, \<lparr>input_name = ''a.ts'', input_description_short = Str ''src'', input_description_medium = Str ''app/src'',
          input_description_long = Str ''/home/app/src'', input_title_long = Str ''/home/app/src/a.ts (copy)''\<rparr>, \<lparr>input_name = ''a.ts'', input_description_short = Str ''src'', input_description_medium = Str ''lib/src'',
          input_description_long = Str ''/home/lib/src'', input_title_long = Str ''/home/lib/src/a.ts''\<rparr>]" 1 "\<lambda>ds. ds"]
  by (simp add: editorLabel_def getName_def shortenTabLabels_def gatherTitles_def gatherTitles_step_def setDescription_def setDescriptions_def shortenDuplicateTitles_def gatherDescriptions_def useLongDescriptions_def longDescriptionsDiffer_def replaceWithLong_def replaceWithLong_step_def js_nth_def upt_rec Let_def)

text \<open>
  Two labels of one name and one description whose long descriptions differ: the resolver
  replaces the descriptions by the long ones and hands these to the shortening routine,
  whatever the routine is; the two labels end with its two results.
\<close>

lemma same_source_any_shorten:
  "map description (shortenTabLabels sh (map (editorLabel MEDIUM) [\<lparr>input_name = ''a.ts'', input_description_short = Str ''src'', input_description_medium = Str ''src'',
          input_description_long = Str ''/x/src'', input_title_long = Str ''/x/src/a.ts''\<rparr>, \<lparr>input_name = ''a.ts'', input_description_short = Str ''src'', input_description_medium = Str ''src'',
          input_description_long = Str ''/y/src'', input_title_long = Str ''/y/src/a.ts''\<rparr>]))
     = [js_nth (sh [Str ''/x/src'', Str ''/y/src'']) 0, js_nth (sh [Str ''/x/src'', Str ''/y/src'']) 1]"
  by (simp add: editorLabel_def getName_def shortenTabLabels_def gatherTitles_def gatherTitles_step_def setDescription_def setDescriptions_def shortenDuplicateTitles_def gatherDescriptions_def useLongDescriptions_def longDescriptionsDiffer_def replaceWithLong_def replaceWithLong_step_def upt_rec Let_def)

text \<open>With a routine that returns the long descriptions as they are:\<close>

theorem same_source_counterexample:
  "(let labels = map (editorLabel MEDIUM) [\<lparr>input_name = ''a.ts'', input_description_short = Str ''src'', input_description_medium = Str ''src'',
          input_description_long = Str ''/x/src'', input_title_long = Str ''/x/src/a.ts''\<rparr>, \<lparr>input_name = ''a.ts'', input_description_short = Str ''src'', input_description_medium = Str ''src'',
          input_description_long = Str ''/y/src'', input_title_long = Str ''/y/src/a.ts''\<rparr>];
        result = shortenTabLabels (\<lambda>ds. ds) labels
    in name (labels ! 0) = name (labels ! 1) \<and>
       description (labels ! 0) = Str ''src'' \<and> description (labels ! 1) = Str ''src'' \<and>
       description (result ! 0) = Str ''/x/src'' \<and> description (result ! 1) = Str ''/y/src'' \<and>
       description (result ! 0) \<noteq> description (result ! 1))"
  by (simp add: editorLabel_def getName_def shortenTabLabels_def gatherTitles_def gatherTitles_step_def setDescription_def setDescriptions_def shortenDuplicateTitles_def gatherDescriptions_def useLongDescriptions_def longDescriptionsDiffer_def replaceWithLong_def replaceWithLong_step_def js_nth_def upt_rec Let_def)

text \<open>
  C2, as amended: in a label set with two or more labels of the name \<open>n\<close>, if the labels
  of that name whose (string) descriptions collide also agree on their long descriptions,
  and the string descriptions of that name are all the same, so that one description value
  is left among them, then every label of that name ends with the empty description.
\<close>

theorem duplicates_without_difference_cleared:
  assumes "i < length labels" and "name (labels ! i) = n"
    and "2 \<le> length (filter (\<lambda>l. name l = n) labels)"
    and "\<forall>a \<in> set labels. \<forall>b \<in> set labels.
           name a = n \<and> name b = n \<and> is_string (description a) \<and> is_string (description b) \<and>
           description a = description b \<longrightarrow>
             getDescription (editor a) LONG = getDescription (editor b) LONG"
    and "\<forall>a \<in> set labels. \<forall>b \<in> set labels.
           name a = n \<and> name b = n \<and> is_string (description a) \<and> is_string (description b) \<longrightarrow>
             description a = description b"
  shows "description (shortenTabLabels shorten labels ! i) = Str []"
proof (cases "is_string (description (labels ! i))")
  case False
  then show ?thesis
    using assms(1) by (simp add: shortenTabLabels_non_string)
next
  case True
  let ?g = "sameName labels i"
  have member: "labels ! j \<in> set labels \<and> name (labels ! j) = n \<and> is_string (description (labels ! j))"
    if "j \<in> set ?g" for j
    using that assms(2) by (simp add: sameName_member)
  have same: "description (labels ! a) = description (labels ! b)" if "a \<in> set ?g" "b \<in> set ?g" for a b
    using assms(5) member [OF that(1)] member [OF that(2)] by blast
  have long: "longOf labels a = longOf labels b" if "a \<in> set ?g" "b \<in> set ?g" for a b
    using assms(4) member [OF that(1)] member [OF that(2)] same [OF that] unfolding longOf_def by blast
  show ?thesis
  proof (cases "length ?g = 1")
    case True
    then show ?thesis
      using assms(1) \<open>is_string (description (labels ! i))\<close> by (simp add: shortenTabLabels_unique)
  next
    case False
    have i: "i \<in> set ?g"
      using assms(1) True by (rule sameName_self)
    have "\<not> needLong labels ?g"
    proof
      assume "needLong labels ?g"
      then obtain a b where "a \<in> set ?g" "b \<in> set ?g" "longOf labels a \<noteq> longOf labels b"
        unfolding needLong_def by blast
      then show False using long [of a b] by simp
    qed
    then have "keyOf labels ?g a = description (labels ! i)" if "a \<in> set ?g" for a
      using same [OF that i] by (simp add: keyOf_def)
    then have "keyOf labels ?g ` set ?g = {description (labels ! i)}"
      using i by auto
    then have "set (groupKeys labels ?g) = {description (labels ! i)}"
      by (simp add: groupKeys_set)
    then have "length (groupKeys labels ?g) = 1"
      using distinct_card [OF groupKeys_distinct, of labels ?g] by simp
    then show ?thesis
      using assms(1) True False by (simp add: shortenTabLabels_cleared)
  qed
qed

theorem duplicates_without_difference_cleared_witness:
  "(let labels = map (editorLabel MEDIUM) [\<lparr>input_name = ''a.ts'', input_description_short = Str ''src'', input_description_medium = Str ''app/src'',
          input_description_long = Str ''/home/app/src'', input_title_long = Str ''/home/app/src/a.ts''\<rparr>, \<lparr>input_name = ''a.ts'', input_description_short = Str ''src'', input_description_medium = Str ''app/src'',
          input_description_long = Str ''/home/app/src'', input_title_long = Str ''/home/app/src/a.ts (copy)''\<rparr>, \<lparr>input_name = ''b.ts'', input_description_short = Str ''src'', input_description_medium = Str ''app/src'',
          input_description_long = Str ''/home/app/src'', input_title_long = Str ''/home/app/src/b.ts''\<rparr>];
        result = shortenTabLabels (\<lambda>ds. ds) labels
    in description (result ! 0) = Str [] \<and> description (result ! 1) = Str [])"
  using duplicates_without_difference_cleared [of 0 "map (editorLabel MEDIUM) [\<lparr>input_name = ''a.ts'', input_description_short = Str ''src'', input_description_medium = Str ''app/src'',
          input_description_long = Str ''/home/app/src'', input_title_long = Str ''/home/app/src/a.ts''\<rparr>, \<lparr>input_name = ''a.ts'', input_description_short = Str ''src'', input_description_medium = Str ''app/src'',
          input_description_long = Str ''/home/app/src'', input_title_long = Str ''/home/app/src/a.ts (copy)''\<rparr>, \<lparr>input_name = ''b.ts'', input_description_short = Str ''src'', input_description_medium = Str ''app/src'',
          input_description_long = Str ''/home/app/src'', input_title_long = Str ''/home/app/src/b.ts''\<rparr>]" "''a.ts''" "\<lambda>ds. ds"]
    duplicates_without_difference_cleared [of 1 "map (editorLabel MEDIUM) [\<lparr>input_name = ''a.ts'', input_description_short = Str ''src'', input_description_medium = Str ''app/src'',
          input_description_long = Str ''/home/app/src'', input_title_long = Str ''/home/app/src/a.ts''\<rparr>, \<lparr>input_name = ''a.ts'', input_description_short = Str ''src'', input_description_medium = Str ''app/src'',
          input_description_long = Str ''/home/app/src'', input_title_long = Str ''/home/app/src/a.ts (copy)''\<rparr>, \<lparr>input_name = ''b.ts'', input_description_short = Str ''src'', input_description_medium = Str ''app/src'',
          input_description_long = Str ''/home/app/src'', input_title_long = Str ''/home/app/src/b.ts''\<rparr>]" "''a.ts''" "\<lambda>ds. ds"]
  by (simp add: editorLabel_def getName_def)

text \<open>
  Three labels of one name, two of them with the same description and the same long
  description, the third with a description of its own: no two labels of equal
  description differ in their long descriptions, two description values are left, and the
  resolver hands them to the shortening routine, whatever the routine is.
\<close>

lemma second_description_any_shorten:
  "map description (shortenTabLabels sh (map (editorLabel MEDIUM) [\<lparr>input_name = ''a.ts'', input_description_short = Str ''src'', input_description_medium = Str ''src'',
          input_description_long = Str ''/x/src'', input_title_long = Str ''/x/src/a.ts''\<rparr>, \<lparr>input_name = ''a.ts'', input_description_short = Str ''src'', input_description_medium = Str ''src'',
          input_description_long = Str ''/x/src'', input_title_long = Str ''/x/src/a.ts (copy)''\<rparr>, \<lparr>input_name = ''a.ts'', input_description_short = Str ''lib'', input_description_medium = Str ''lib'',
          input_description_long = Str ''/x/lib'', input_title_long = Str ''/x/lib/a.ts''\<rparr>]))
     = [js_nth (sh [Str ''src'', Str ''lib'']) 0, js_nth (sh [Str ''src'', Str ''lib'']) 0,
        js_nth (sh [Str ''src'', Str ''lib'']) 1]"
  by (simp add: editorLabel_def getName_def shortenTabLabels_def gatherTitles_def gatherTitles_step_def setDescription_def setDescriptions_def shortenDuplicateTitles_def gatherDescriptions_def useLongDescriptions_def longDescriptionsDiffer_def replaceWithLong_def replaceWithLong_step_def js_nth_def upt_rec Let_def)

text \<open>With a routine that returns the descriptions as they are, none of them is cleared:\<close>

theorem duplicates_second_description_counterexample:
  "(let labels = map (editorLabel MEDIUM) [\<lparr>input_name = ''a.ts'', input_description_short = Str ''src'', input_description_medium = Str ''src'',
          input_description_long = Str ''/x/src'', input_title_long = Str ''/x/src/a.ts''\<rparr>, \<lparr>input_name = ''a.ts'', input_description_short = Str ''src'', input_description_medium = Str ''src'',
          input_description_long = Str ''/x/src'', input_title_long = Str ''/x/src/a.ts (copy)''\<rparr>, \<lparr>input_name = ''a.ts'', input_description_short = Str ''lib'', input_description_medium = Str ''lib'',
          input_description_long = Str ''/x/lib'', input_title_long = Str ''/x/lib/a.ts''\<rparr>];
        result = shortenTabLabels (\<lambda>ds. ds) labels
    in map name labels = [''a.ts'', ''a.ts'', ''a.ts''] \<and>
       map description labels = [Str ''src'', Str ''src'', Str ''lib''] \<and>
       map (\<lambda>l. getDescription (editor l) LONG) labels = [Str ''/x/src'', Str ''/x/src'', Str ''/x/lib''] \<and>
       \<not> (\<exists>a \<in> set labels. \<exists>b \<in> set labels. description a = description b \<and>
              getDescription (editor a) LONG \<noteq> getDescription (editor b) LONG) \<and>
       map description result = [Str ''src'', Str ''src'', Str ''lib''] \<and>
       description (result ! 0) \<noteq> Str [])"
  by (simp add: editorLabel_def getName_def shortenTabLabels_def gatherTitles_def gatherTitles_step_def setDescription_def setDescriptions_def shortenDuplicateTitles_def gatherDescriptions_def useLongDescriptions_def longDescriptionsDiffer_def replaceWithLong_def replaceWithLong_step_def js_nth_def upt_rec Let_def)

subsection \<open>Running the resolver on its own result\<close>









text \<open>
  A label without a description next to a label of the same name: the first run clears
  both descriptions, and the second run, which finds two empty strings under one name,
  turns to the long descriptions and hands them to the shortening routine, whatever the
  routine is.
\<close>

lemma resolver_rerun_any_shorten:
  "map description (shortenTabLabels sh (map (editorLabel MEDIUM) [\<lparr>input_name = ''a.ts'', input_description_short = Null, input_description_medium = Null,
          input_description_long = Null, input_title_long = Null\<rparr>, \<lparr>input_name = ''a.ts'', input_description_short = Str ''src'', input_description_medium = Str ''app/src'',
          input_description_long = Str ''/home/app/src'', input_title_long = Str ''/home/app/src/a.ts''\<rparr>])) = [Str [], Str []] \<and>
   map description (shortenTabLabels sh (shortenTabLabels sh (map (editorLabel MEDIUM) [\<lparr>input_name = ''a.ts'', input_description_short = Null, input_description_medium = Null,
          input_description_long = Null, input_title_long = Null\<rparr>, \<lparr>input_name = ''a.ts'', input_description_short = Str ''src'', input_description_medium = Str ''app/src'',
          input_description_long = Str ''/home/app/src'', input_title_long = Str ''/home/app/src/a.ts''\<rparr>])))
     = [js_nth (sh [Null, Str ''/home/app/src'']) 0, js_nth (sh [Null, Str ''/home/app/src'']) 1]"
  by (simp add: editorLabel_def getName_def shortenTabLabels_def gatherTitles_def gatherTitles_step_def setDescription_def setDescriptions_def shortenDuplicateTitles_def gatherDescriptions_def useLongDescriptions_def longDescriptionsDiffer_def replaceWithLong_def replaceWithLong_step_def js_nth_def upt_rec Let_def)

text \<open>
  The routine that marks every string it returns keeps the contract: one string per
  input, pairwise distinct for pairwise distinct inputs.
\<close>

lemma marking_keeps_contract:
  "shorten_contract (map (\<lambda>d. case d of Str s \<Rightarrow> Str (s @ ''x'') | Null \<Rightarrow> Null | Undefined \<Rightarrow> Undefined))"
proof -
  let ?f = "\<lambda>d. case d of Str s \<Rightarrow> Str (s @ ''x'') | Null \<Rightarrow> Null | Undefined \<Rightarrow> Undefined"
  have "inj ?f"
    by (rule injI) (auto split: jsstring.splits)
  then have "distinct (map ?f ds)" if "distinct ds" for ds
    using that by (simp add: distinct_map inj_on_def inj_def)
  moreover have "is_string (?f d)" if "is_string d" for d
    using that by (cases d) simp_all
  ultimately show ?thesis
    unfolding shorten_contract_def by auto
qed


subsection \<open>Dropping a tab onto its own last position\<close>

lemma indexOf_nth:
  "0 \<le> indexOf xs x \<Longrightarrow> nat (indexOf xs x) < length xs \<and> xs ! nat (indexOf xs x) = x"
proof (induction xs)
  case Nil
  then show ?case by simp
next
  case (Cons y ys)
  show ?case
  proof (cases "y = x")
    case True
    then show ?thesis by simp
  next
    case False
    then have r: "0 \<le> indexOf ys x" "indexOf (y # ys) x = indexOf ys x + 1"
      using Cons.prems by (auto simp: Let_def split: if_splits)
    then have "nat (indexOf (y # ys) x) = Suc (nat (indexOf ys x))"
      by simp
    then show ?thesis
      using Cons.IH [OF r(1)] by simp
  qed
qed

lemma splice_last:
  assumes "xs \<noteq> []" and "length xs - 1 \<le> t"
  shows "splice_insert (splice_delete1 xs (length xs - 1)) t (xs ! (length xs - 1)) = xs"
proof -
  have "splice_delete1 xs (length xs - 1) = butlast xs"
    using assms(1) by (simp add: splice_delete1_def butlast_conv_take)
  moreover have "splice_insert (butlast xs) t (last xs) = xs"
    using assms by (simp add: splice_insert_def)
  moreover have "xs ! (length xs - 1) = last xs"
    using assms(1) by (simp add: last_conv_nth)
  ultimately show ?thesis by simp
qed

lemma moveEditor_tabLabels_last:
  assumes "xs \<noteq> []" and "length xs - 1 \<le> t"
  shows "moveEditor_tabLabels xs (length xs - 1) t = xs"
  using assms splice_last [OF assms] by (simp add: moveEditor_tabLabels_def js_index_def)

lemma layout_frame:
  "group (layout d s) = group s \<and> tabLabels (layout d s) = tabLabels s \<and>
   tabsContainer (layout d s) = tabsContainer s \<and> transfer (layout d s) = transfer s \<and>
   scrollbar (layout d s) = scrollbar s"
  by (simp add: layout_def Let_def)

lemma updateDropFeedback_frame:
  "group (updateDropFeedback b s) = group s" "tabLabels (updateDropFeedback b s) = tabLabels s"
  "transfer (updateDropFeedback b s) = transfer s" "dimension (updateDropFeedback b s) = dimension s"
  "children (tabsContainer (updateDropFeedback b s)) = children (tabsContainer s)"
  "dropFeedback (tabsContainer (updateDropFeedback b s)) = b"
  by (simp_all add: updateDropFeedback_def)

lemma set_scroll_class_frame:
  "group (set_scroll_class b s) = group s" "tabLabels (set_scroll_class b s) = tabLabels s"
  "transfer (set_scroll_class b s) = transfer s" "dimension (set_scroll_class b s) = dimension s"
  "children (tabsContainer (set_scroll_class b s)) = children (tabsContainer s)"
  "dropFeedback (tabsContainer (set_scroll_class b s)) = dropFeedback (tabsContainer s)"
  by (simp_all add: set_scroll_class_def)

lemma onDrop_own_last:
  assumes payload: "transfer s = Some d"
    and same_group: "dragged_group_id d = group_id (group s)"
    and last: "getIndexOfEditor (group s) (Some (dragged_editor d)) = int (group_count (group s)) - 1"
    and nonempty: "0 < group_count (group s)"
    and aligned: "length (tabLabels s) = group_count (group s)"
    and index: "group_count (group s) - 1 \<le> targetIndex"
    and host: "host (MoveEditor (group_id (group s)) (dragged_editor d) (group_id (group s)) targetIndex)
                 = group_moveEditor (dragged_editor d) targetIndex"
  shows "editors (group (onDrop host isMacintosh e targetIndex s)) = editors (group s) \<and>
         tabLabels (onDrop host isMacintosh e targetIndex s) = tabLabels s \<and>
         children (tabsContainer (onDrop host isMacintosh e targetIndex s)) = children (tabsContainer s) \<and>
         \<not> dropFeedback (tabsContainer (onDrop host isMacintosh e targetIndex s))"
proof -
  let ?n = "group_count (group s)"
  let ?s1 = "set_scroll_class False (updateDropFeedback False s)"
  have s1: "group ?s1 = group s" "tabLabels ?s1 = tabLabels s" "transfer ?s1 = transfer s"
    "children (tabsContainer ?s1) = children (tabsContainer s)" "\<not> dropFeedback (tabsContainer ?s1)"
    "dimension ?s1 = dimension s"
    by (simp_all add: set_scroll_class_frame updateDropFeedback_frame)
  have idx: "getIndexOfEditor (group s) (Some (dragged_editor d)) = int (?n - 1)"
    using last nonempty by simp
  have ed: "editors (group s) ! (?n - 1) = dragged_editor d"
    using indexOf_nth [of "editors (group s)" "dragged_editor d"] idx
    by (simp add: getIndexOfEditor_def)
  have ne: "editors (group s) \<noteq> []" "tabLabels s \<noteq> []"
    using nonempty aligned by (auto simp: group_count_def)
  have eds: "splice_insert (splice_delete1 (editors (group s)) (?n - 1)) targetIndex (dragged_editor d)
      = editors (group s)"
    using splice_last [OF ne(1), of targetIndex] ed index by (simp add: group_count_def)
  have lbs: "moveEditor_tabLabels (tabLabels s) (?n - 1) targetIndex = tabLabels s"
    using moveEditor_tabLabels_last [OF ne(2), of targetIndex] aligned index by simp
  let ?m = "group_moveEditor (dragged_editor d) targetIndex ?s1"
  have moved: "editors (group ?m) = editors (group s)" "tabLabels ?m = tabLabels s"
    "tabsContainer ?m = tabsContainer ?s1"
    using idx eds lbs s1
    by (simp_all add: group_moveEditor_def moveEditor_def Let_def layout_frame)
  have drop: "onDrop host isMacintosh e targetIndex s = ?m\<lparr>transfer := None\<rparr>"
    using payload same_group host
    by (simp add: onDrop_def Let_def isMoveOperation_def
        set_scroll_class_frame updateDropFeedback_frame)
  show ?thesis
    using drop moved s1 by simp
qed

text \<open>
  C5: with the host group as the spec describes it, when the dragged document belongs to
  this group and sits at its last index, dragging over the tabs container shows no drop
  feedback, and a drop at the last index or behind it, as well as a drop onto the tabs
  container (which passes the document count), leaves the document list of the group, the
  tab labels and the tab elements as they were, with the drop feedback cleared.
\<close>

theorem drop_on_own_last_position:
  assumes payload: "transfer s = Some d"
    and same_group: "dragged_group_id d = group_id (group s)"
    and last: "getIndexOfEditor (group s) (Some (dragged_editor d)) = int (group_count (group s)) - 1"
    and nonempty: "0 < group_count (group s)"
    and aligned: "length (tabLabels s) = group_count (group s)"
    and target: "target_is_tabsContainer e"
    and index: "group_count (group s) - 1 \<le> targetIndex"
    and host: "\<And>t. host (MoveEditor (group_id (group s)) (dragged_editor d) (group_id (group s)) t)
                 = group_moveEditor (dragged_editor d) t"
  shows "dropFeedback (tabsContainer (tabsContainer_onDragOver e s)) = dropFeedback (tabsContainer s) \<and>
         editors (group (onDrop host isMacintosh e targetIndex s)) = editors (group s) \<and>
         tabLabels (onDrop host isMacintosh e targetIndex s) = tabLabels s \<and>
         children (tabsContainer (onDrop host isMacintosh e targetIndex s)) = children (tabsContainer s) \<and>
         \<not> dropFeedback (tabsContainer (onDrop host isMacintosh e targetIndex s)) \<and>
         editors (group (tabsContainer_onDrop host isMacintosh e s)) = editors (group s) \<and>
         tabLabels (tabsContainer_onDrop host isMacintosh e s) = tabLabels s \<and>
         children (tabsContainer (tabsContainer_onDrop host isMacintosh e s)) = children (tabsContainer s) \<and>
         \<not> dropFeedback (tabsContainer (tabsContainer_onDrop host isMacintosh e s))"
proof -
  let ?n = "group_count (group s)"
  let ?s1 = "set_scroll_class False (updateDropFeedback False s)"
  have s1: "group ?s1 = group s" "tabLabels ?s1 = tabLabels s" "transfer ?s1 = transfer s"
    "children (tabsContainer ?s1) = children (tabsContainer s)"
    by (simp_all add: set_scroll_class_frame updateDropFeedback_frame)
  have over: "dropFeedback (tabsContainer (tabsContainer_onDragOver e s)) = dropFeedback (tabsContainer s)"
    using target payload same_group last
    by (simp add: tabsContainer_onDragOver_def Let_def set_scroll_class_frame)
  have at_index: "editors (group (onDrop host isMacintosh e targetIndex s)) = editors (group s) \<and>
         tabLabels (onDrop host isMacintosh e targetIndex s) = tabLabels s \<and>
         children (tabsContainer (onDrop host isMacintosh e targetIndex s)) = children (tabsContainer s) \<and>
         \<not> dropFeedback (tabsContainer (onDrop host isMacintosh e targetIndex s))"
    using payload same_group last nonempty aligned index host [of targetIndex]
    by (rule onDrop_own_last)
  have listener: "tabsContainer_onDrop host isMacintosh e s = onDrop host isMacintosh e ?n ?s1"
    using target by (simp add: tabsContainer_onDrop_def Let_def s1)
  have "editors (group (onDrop host isMacintosh e ?n ?s1)) = editors (group ?s1) \<and>
         tabLabels (onDrop host isMacintosh e ?n ?s1) = tabLabels ?s1 \<and>
         children (tabsContainer (onDrop host isMacintosh e ?n ?s1)) = children (tabsContainer ?s1) \<and>
         \<not> dropFeedback (tabsContainer (onDrop host isMacintosh e ?n ?s1))"
  proof (rule onDrop_own_last [where d = d])
    show "transfer ?s1 = Some d" using payload s1 by simp
    show "dragged_group_id d = group_id (group ?s1)" using same_group s1 by simp
    show "getIndexOfEditor (group ?s1) (Some (dragged_editor d)) = int (group_count (group ?s1)) - 1"
      using last s1 by simp
    show "0 < group_count (group ?s1)" using nonempty s1 by simp
    show "length (tabLabels ?s1) = group_count (group ?s1)" using aligned s1 by simp
    show "group_count (group ?s1) - 1 \<le> ?n" using s1 by simp
    show "host (MoveEditor (group_id (group ?s1)) (dragged_editor d) (group_id (group ?s1)) ?n)
        = group_moveEditor (dragged_editor d) ?n"
      using host [of ?n] s1 by simp
  qed
  then show ?thesis
    using over at_index listener s1 by simp
qed

theorem drop_on_own_last_position_witness:
  "(let s = \<lparr>group = \<lparr>group_id = 1, editors = [\<lparr>input_name = ''a.ts'', input_description_short = Str ''src'', input_description_medium = Str ''app/src'',
          input_description_long = Str ''/home/app/src'', input_title_long = Str ''/home/app/src/a.ts''\<rparr>, \<lparr>input_name = ''b.ts'', input_description_short = Str ''src'', input_description_medium = Str ''app/src'',
          input_description_long = Str ''/home/app/src'', input_title_long = Str ''/home/app/src/b.ts''\<rparr>], activeEditor = Some (\<lparr>input_name = ''a.ts'', input_description_short = Str ''src'', input_description_medium = Str ''app/src'',
          input_description_long = Str ''/home/app/src'', input_title_long = Str ''/home/app/src/a.ts''\<rparr>)\<rparr>,
        tabsContainer = \<lparr>container_offsetWidth = 400, container_scrollWidth = 900,
          children = [\<lparr>offsetLeft = 0, offsetWidth = 80\<rparr>, \<lparr>offsetLeft = 80, offsetWidth = 80\<rparr>],
          scroll_class = True, dropFeedback = False\<rparr>,
        scrollbar = \<lparr>sb_width = 400, sb_scrollWidth = 900, sb_scrollLeft = 0\<rparr>,
        tabLabels = map Some (map (editorLabel MEDIUM) [\<lparr>input_name = ''a.ts'', input_description_short = Str ''src'', input_description_medium = Str ''app/src'',
          input_description_long = Str ''/home/app/src'', input_title_long = Str ''/home/app/src/a.ts''\<rparr>, \<lparr>input_name = ''b.ts'', input_description_short = Str ''src'', input_description_medium = Str ''app/src'',
          input_description_long = Str ''/home/app/src'', input_title_long = Str ''/home/app/src/b.ts''\<rparr>]),
        dimension = Some \<lparr>dim_width = 400, dim_height = 35\<rparr>, layoutScheduled = False,
        blockRevealActiveTab = False,
        transfer = Some \<lparr>dragged_editor = \<lparr>input_name = ''b.ts'', input_description_short = Str ''src'', input_description_medium = Str ''app/src'',
          input_description_long = Str ''/home/app/src'', input_title_long = Str ''/home/app/src/b.ts''\<rparr>, dragged_group_id = 1\<rparr>\<rparr>;
        host = (\<lambda>request. case request of MoveEditor source ed target t \<Rightarrow> group_moveEditor ed t
                         | OpenEditor ed t \<Rightarrow> (\<lambda>s. s) | HandleDrop target t \<Rightarrow> (\<lambda>s. s));
        e = \<lparr>ctrlKey = False, altKey = False, target_is_tabsContainer = True\<rparr>
    in \<not> dropFeedback (tabsContainer (tabsContainer_onDragOver e s)) \<and>
       editors (group (tabsContainer_onDrop host False e s)) = editors (group s) \<and>
       tabLabels (tabsContainer_onDrop host False e s) = tabLabels s \<and>
       children (tabsContainer (tabsContainer_onDrop host False e s)) = children (tabsContainer s) \<and>
       editors (group (onDrop host False e 1 s)) = editors (group s) \<and>
       tabLabels (onDrop host False e 1 s) = tabLabels s)"
  using drop_on_own_last_position [of "\<lparr>group = \<lparr>group_id = 1, editors = [\<lparr>input_name = ''a.ts'', input_description_short = Str ''src'', input_description_medium = Str ''app/src'',
          input_description_long = Str ''/home/app/src'', input_title_long = Str ''/home/app/src/a.ts''\<rparr>, \<lparr>input_name = ''b.ts'', input_description_short = Str ''src'', input_description_medium = Str ''app/src'',
          input_description_long = Str ''/home/app/src'', input_title_long = Str ''/home/app/src/b.ts''\<rparr>], activeEditor = Some (\<lparr>input_name = ''a.ts'', input_description_short = Str ''src'', input_description_medium = Str ''app/src'',
          input_description_long = Str ''/home/app/src'', input_title_long = Str ''/home/app/src/a.ts''\<rparr>)\<rparr>,
        tabsContainer = \<lparr>container_offsetWidth = 400, container_scrollWidth = 900,
          children = [\<lparr>offsetLeft = 0, offsetWidth = 80\<rparr>, \<lparr>offsetLeft = 80, offsetWidth = 80\<rparr>],
          scroll_class = True, dropFeedback = False\<rparr>,
        scrollbar = \<lparr>sb_width = 400, sb_scrollWidth = 900, sb_scrollLeft = 0\<rparr>,
        tabLabels = map Some (map (editorLabel MEDIUM) [\<lparr>input_name = ''a.ts'', input_description_short = Str ''src'', input_description_medium = Str ''app/src'',
          input_description_long = Str ''/home/app/src'', input_title_long = Str ''/home/app/src/a.ts''\<rparr>, \<lparr>input_name = ''b.ts'', input_description_short = Str ''src'', input_description_medium = Str ''app/src'',
          input_description_long = Str ''/home/app/src'', input_title_long = Str ''/home/app/src/b.ts''\<rparr>]),
        dimension = Some \<lparr>dim_width = 400, dim_height = 35\<rparr>, layoutScheduled = False,
        blockRevealActiveTab = False,
        transfer = Some \<lparr>dragged_editor = \<lparr>input_name = ''b.ts'', input_description_short = Str ''src'', input_description_medium = Str ''app/src'',
          input_description_long = Str ''/home/app/src'', input_title_long = Str ''/home/app/src/b.ts''\<rparr>, dragged_group_id = 1\<rparr>\<rparr>"
      "\<lparr>dragged_editor = \<lparr>input_name = ''b.ts'', input_description_short = Str ''src'', input_description_medium = Str ''app/src'',
          input_description_long = Str ''/home/app/src'', input_title_long = Str ''/home/app/src/b.ts''\<rparr>, dragged_group_id = 1\<rparr>"
      "\<lparr>ctrlKey = False, altKey = False, target_is_tabsContainer = True\<rparr>" 1
      "(\<lambda>request. case request of MoveEditor source ed target t \<Rightarrow> group_moveEditor ed t
                         | OpenEditor ed t \<Rightarrow> (\<lambda>s. s) | HandleDrop target t \<Rightarrow> (\<lambda>s. s))" False]
  by (simp add: getIndexOfEditor_def group_count_def)

end
